theory Spec2Isabelle
  imports Complex_Main "HOL-Library.AList" "HOL-Library.Product_Lexorder"
begin

section \<open>Conventions of the embedding\<close>

text \<open>
  The development embeds the model-selection core of the anime bot:
  \<^verbatim>\<open>ai/model_config.py\<close>, \<^verbatim>\<open>ai/health_tracker.py\<close>, \<^verbatim>\<open>ai/ai_client.py\<close>,
  \<^verbatim>\<open>models/failure_tracker.py\<close> and \<^verbatim>\<open>utils/retry_handler.py\<close>.

  \<^item> A Python \<^verbatim>\<open>dict\<close> keeps its keys in insertion order and the code iterates over
    \<^verbatim>\<open>.items()\<close>, so a dict is an association list; \<^verbatim>\<open>d[k]\<close> reads with
    \<^const>\<open>map_of\<close> and raises \<^verbatim>\<open>KeyError\<close> on a missing key; \<^verbatim>\<open>d[k] = v\<close> is
    \<^const>\<open>AList.update\<close> (an existing key keeps its place, a new one goes last).
  \<^item> A raised exception is the \<open>Inl\<close> branch of a sum.
  \<^item> The counters of a health record start at 0 and are only ever incremented or
    set to 0, so they are natural numbers. Python's \<^verbatim>\<open>float\<close> values (response times,
    success rates, scores, delays) are modelled as exact rationals: rounding is not
    modelled.
  \<^item> Wall-clock readings (\<^verbatim>\<open>datetime.now().isoformat()\<close>), the remote providers, the
    jitter of \<^verbatim>\<open>random.uniform\<close> and the wrapped operation of the retry engine are
    inputs of the model.
  \<^item> The global \<^verbatim>\<open>AI_MODELS\<close> is passed to every function that reads it, as the
    parameter \<open>reg\<close>; the constant \<open>AI_MODELS\<close> below is the catalogue of the source.
\<close>

section \<open>Model registry (\<^verbatim>\<open>ai/model_config.py\<close>)\<close>

record model_info =
  model_id :: string
  provider :: string
  tier :: int
  speed :: string
  creativity :: int
  instruction_following :: int
  context_length :: int
  multimodal :: bool
  best_for :: "string list"
  model_notes :: string

type_synonym registry = "(string \<times> model_info) list"

definition AI_MODELS :: registry where
  "AI_MODELS =
    [(''gemini-2.0-flash'',
        \<lparr>model_id = ''google/gemini-2.0-flash-exp:free'', provider = ''openrouter'',
         tier = 1, speed = ''very_fast'', creativity = 9, instruction_following = 9,
         context_length = 32768, multimodal = True,
         best_for = [''creative_writing'', ''sentiment_analysis'', ''image_analysis''],
         model_notes = ''Latest Google model, excellent at social media posts''\<rparr>),
     (''llama-3.3-70b'',
        \<lparr>model_id = ''meta-llama/llama-3.3-70b-instruct:free'', provider = ''openrouter'',
         tier = 1, speed = ''fast'', creativity = 8, instruction_following = 10,
         context_length = 131072, multimodal = False,
         best_for = [''instruction_following'', ''consistent_output'', ''long_context''],
         model_notes = ''70B model, very reliable, great at following prompts precisely''\<rparr>),
     (''qwen-2.5-72b'',
        \<lparr>model_id = ''qwen/qwen-2.5-72b-instruct:free'', provider = ''openrouter'',
         tier = 1, speed = ''fast'', creativity = 8, instruction_following = 9,
         context_length = 32768, multimodal = False,
         best_for = [''reasoning'', ''multilingual'', ''quality_check''],
         model_notes = ''72B model, excellent for Japanese/English content''\<rparr>),
     (''llama-3.1-8b'',
        \<lparr>model_id = ''meta-llama/llama-3.1-8b-instruct'', provider = ''openrouter'',
         tier = 2, speed = ''fast'', creativity = 7, instruction_following = 8,
         context_length = 131072, multimodal = False,
         best_for = [''reasoning'', ''analysis'', ''quick_tasks''],
         model_notes = ''Fast 8B model, good backup for reasoning tasks''\<rparr>),
     (''hermes-3-405b'',
        \<lparr>model_id = ''nousresearch/hermes-3-llama-3.1-405b:free'', provider = ''openrouter'',
         tier = 2, speed = ''slow'', creativity = 9, instruction_following = 8,
         context_length = 131072, multimodal = False,
         best_for = [''creative_writing'', ''roleplay''],
         model_notes = ''405B model! Very creative but slow''\<rparr>),
     (''mistral-nemo'',
        \<lparr>model_id = ''mistralai/mistral-nemo:free'', provider = ''openrouter'',
         tier = 3, speed = ''very_fast'', creativity = 7, instruction_following = 7,
         context_length = 131072, multimodal = False,
         best_for = [''quick_tasks'', ''speed''],
         model_notes = ''Fast and efficient, good for simple tasks''\<rparr>),
     (''gemini-direct'',
        \<lparr>model_id = ''gemini-2.0-flash-exp'', provider = ''gemini_direct'',
         tier = 1, speed = ''very_fast'', creativity = 9, instruction_following = 9,
         context_length = 1000000, multimodal = True,
         best_for = [''creative_writing'', ''long_context''],
         model_notes = ''Direct Gemini API - separate quota from OpenRouter!''\<rparr>)]"

section \<open>Health tracker (\<^verbatim>\<open>ai/health_tracker.py\<close>)\<close>

datatype error = KeyError string

text \<open>\<^verbatim>\<open>d[k]\<close> on a dict: the value, or \<^verbatim>\<open>KeyError\<close>.\<close>

definition getitem :: "(string \<times> 'v) list \<Rightarrow> string \<Rightarrow> error + 'v" where
  "getitem d k = (case map_of d k of None \<Rightarrow> Inl (KeyError k) | Some v \<Rightarrow> Inr v)"

text \<open>
  One entry of \<^verbatim>\<open>health_status\<close>. \<open>is_healthy\<close> is Python's \<^verbatim>\<open>None\<close> (not tested),
  \<^verbatim>\<open>True\<close> or \<^verbatim>\<open>False\<close>.
\<close>

record status =
  is_healthy :: "bool option"
  last_success :: "string option"
  last_failure :: "string option"
  consecutive_failures :: nat
  total_calls :: nat
  total_successes :: nat
  total_failures :: nat
  avg_response_time :: rat

type_synonym health_status = "(string \<times> status) list"

definition initial_status :: status where
  "initial_status =
    \<lparr>is_healthy = None, last_success = None, last_failure = None,
     consecutive_failures = 0, total_calls = 0, total_successes = 0,
     total_failures = 0, avg_response_time = 0\<rparr>"

text \<open>
  \<^verbatim>\<open>ModelHealthTracker.__init__\<close>: one fresh entry per key of \<^verbatim>\<open>AI_MODELS\<close>, in its
  order.
\<close>

definition ModelHealthTracker_init :: "registry \<Rightarrow> health_status" where
  "ModelHealthTracker_init reg =
     foldl (\<lambda>hs model_name. AList.update model_name initial_status hs) [] (map fst reg)"

text \<open>
  \<^verbatim>\<open>mark_success(model_name, response_time)\<close>; \<open>now\<close> is the clock reading stored as
  \<^verbatim>\<open>last_success\<close>. The entry is mutated in place, so it keeps its position.
\<close>

definition mark_success :: "health_status \<Rightarrow> string \<Rightarrow> rat \<Rightarrow> string \<Rightarrow> error + health_status" where
  "mark_success hs model_name response_time now =
     (case getitem hs model_name of
        Inl e \<Rightarrow> Inl e
      | Inr st \<Rightarrow>
          let st1 = st\<lparr>is_healthy := Some True,
                       last_success := Some now,
                       consecutive_failures := 0,
                       total_calls := total_calls st + 1,
                       total_successes := total_successes st + 1\<rparr>;
              total = total_successes st1;
              current_avg = avg_response_time st1
          in Inr (AList.update model_name
                    (st1\<lparr>avg_response_time :=
                        (current_avg * (of_nat total - 1) + response_time) / of_nat total\<rparr>)
                    hs))"

text \<open>\<^verbatim>\<open>mark_failure(model_name, error)\<close>: the error text is not stored.\<close>

definition mark_failure :: "health_status \<Rightarrow> string \<Rightarrow> string \<Rightarrow> string \<Rightarrow> error + health_status" where
  "mark_failure hs model_name err now =
     (case getitem hs model_name of
        Inl e \<Rightarrow> Inl e
      | Inr st \<Rightarrow>
          Inr (AList.update model_name
                 (st\<lparr>is_healthy := Some False,
                     last_failure := Some now,
                     consecutive_failures := consecutive_failures st + 1,
                     total_calls := total_calls st + 1,
                     total_failures := total_failures st + 1\<rparr>)
                 hs))"

text \<open>\<^verbatim>\<open>reset_model(model_name)\<close>: guarded by \<^verbatim>\<open>in\<close>, so an unknown name is ignored.\<close>

definition reset_model :: "health_status \<Rightarrow> string \<Rightarrow> health_status" where
  "reset_model hs model_name =
     (case map_of hs model_name of
        None \<Rightarrow> hs
      | Some st \<Rightarrow>
          AList.update model_name (st\<lparr>consecutive_failures := 0, is_healthy := None\<rparr>) hs)"

subsection \<open>Sequences of tracker calls\<close>

text \<open>
  A caller's sequence of calls on one tracker; the first exception ends the run, as it
  would in Python.
\<close>

datatype tracker_call =
    MarkSuccess string rat string
  | MarkFailure string string string
  | ResetModel string

fun target :: "tracker_call \<Rightarrow> string" where
  "target (MarkSuccess m _ _) = m"
| "target (MarkFailure m _ _) = m"
| "target (ResetModel m) = m"

fun apply_call :: "health_status \<Rightarrow> tracker_call \<Rightarrow> error + health_status" where
  "apply_call hs (MarkSuccess m response_time now) = mark_success hs m response_time now"
| "apply_call hs (MarkFailure m err now) = mark_failure hs m err now"
| "apply_call hs (ResetModel m) = Inr (reset_model hs m)"

fun run_calls :: "health_status \<Rightarrow> tracker_call list \<Rightarrow> error + health_status" where
  "run_calls hs [] = Inr hs"
| "run_calls hs (c # cs) =
     (case apply_call hs c of Inl e \<Rightarrow> Inl e | Inr hs' \<Rightarrow> run_calls hs' cs)"

fun is_mark_failure :: "tracker_call \<Rightarrow> bool" where
  "is_mark_failure (MarkFailure _ _ _) = True"
| "is_mark_failure _ = False"

fun is_reset :: "tracker_call \<Rightarrow> bool" where
  "is_reset (ResetModel _) = True"
| "is_reset _ = False"

text \<open>
  The number of failures recorded for \<open>m\<close> since its most recent success (or since the
  start): the calls on \<open>m\<close>, read from the latest backwards up to the first success.
\<close>

definition failures_since_success :: "string \<Rightarrow> tracker_call list \<Rightarrow> nat" where
  "failures_since_success m cs =
     length (takeWhile is_mark_failure (rev (filter (\<lambda>c. target c = m) cs)))"


subsection \<open>\<^verbatim>\<open>get_healthy_models\<close>\<close>

text \<open>
  \<^verbatim>\<open>list.sort(key=f, reverse=True)\<close>. Python's sort is stable, and with
  \<^verbatim>\<open>reverse=True\<close> elements with equal keys still keep their original order: the
  list is reversed, sorted stably in ascending order, and reversed again.
\<close>

definition sort_reverse :: "('a \<Rightarrow> 'k::linorder) \<Rightarrow> 'a list \<Rightarrow> 'a list" where
  "sort_reverse f xs = rev (sort_key f (rev xs))"

text \<open>
  The sort evaluates the key function once per element, in list order, before it
  compares anything; the first key that raises ends the sort.
\<close>

fun keys_of :: "('a \<Rightarrow> error + 'k) \<Rightarrow> 'a list \<Rightarrow> error + 'k list" where
  "keys_of f [] = Inr []"
| "keys_of f (x # xs) =
     (case f x of
        Inl e \<Rightarrow> Inl e
      | Inr k \<Rightarrow> (case keys_of f xs of Inl e \<Rightarrow> Inl e | Inr ks \<Rightarrow> Inr (k # ks)))"

text \<open>
  The filtering loop over \<^verbatim>\<open>self.health_status.items()\<close>. The parameter
  \<open>tier_filter\<close> is the argument \<^verbatim>\<open>tier\<close> (default \<^verbatim>\<open>None\<close>); \<^verbatim>\<open>if tier and ...\<close>
  is false for \<^verbatim>\<open>None\<close> and for 0.
\<close>

fun healthy_loop :: "registry \<Rightarrow> int option \<Rightarrow> (string \<times> status) list \<Rightarrow> error + string list" where
  "healthy_loop reg tier_filter [] = Inr []"
| "healthy_loop reg tier_filter ((model_name, st) # items) =
     (if is_healthy st = Some False then healthy_loop reg tier_filter items
      else if consecutive_failures st \<ge> 3 then healthy_loop reg tier_filter items
      else
        (case (case tier_filter of
                 None \<Rightarrow> Inr False
               | Some t \<Rightarrow>
                   if t = 0 then Inr False
                   else (case getitem reg model_name of
                           Inl e \<Rightarrow> Inl e
                         | Inr model_info \<Rightarrow> Inr (tier model_info \<noteq> t))) of
           Inl e \<Rightarrow> Inl e
         | Inr True \<Rightarrow> healthy_loop reg tier_filter items
         | Inr False \<Rightarrow>
             (case healthy_loop reg tier_filter items of
                Inl e \<Rightarrow> Inl e
              | Inr healthy \<Rightarrow> Inr (model_name # healthy))))"

text \<open>The sort key: (success rate, minus tier, average response time).\<close>

definition health_key :: "registry \<Rightarrow> health_status \<Rightarrow> string \<Rightarrow> error + (rat \<times> int \<times> rat)" where
  "health_key reg hs x =
     (case getitem hs x of
        Inl e \<Rightarrow> Inl e
      | Inr st \<Rightarrow>
          (case getitem reg x of
             Inl e \<Rightarrow> Inl e
           | Inr model_info \<Rightarrow>
               Inr (of_nat (total_successes st) / of_nat (max (total_calls st) 1),
                    - tier model_info,
                    avg_response_time st)))"

definition get_healthy_models :: "registry \<Rightarrow> health_status \<Rightarrow> int option \<Rightarrow> error + string list" where
  "get_healthy_models reg hs tier_filter =
     (case healthy_loop reg tier_filter hs of
        Inl e \<Rightarrow> Inl e
      | Inr healthy \<Rightarrow>
          (case keys_of (health_key reg hs) healthy of
             Inl e \<Rightarrow> Inl e
           | Inr ks \<Rightarrow> Inr (map snd (sort_reverse fst (zip ks healthy)))))"

section \<open>Multi-model client (\<^verbatim>\<open>ai/ai_client.py\<close>)\<close>

subsection \<open>\<^verbatim>\<open>_get_suitable_models\<close>\<close>

definition speed_map :: "(string \<times> rat) list" where
  "speed_map = [(''very_fast'', 5), (''fast'', 3), (''medium'', 1), (''slow'', 0)]"

text \<open>
  The body of the scoring loop for one model that is not skipped: the score starts
  at 0 and the five bonuses are added in the order of the source.
\<close>

definition suitability_score :: "string \<Rightarrow> model_info \<Rightarrow> status \<Rightarrow> rat" where
  "suitability_score task_type model_info st =
     (let score0 = 0;
          score1 = (if task_type \<in> set (best_for model_info) then score0 + 30 else score0);
          score2 = score1 + of_int ((4 - tier model_info) * 20);
          score3 = (if is_healthy st = Some True then score2 + 25
                    else if is_healthy st = None then score2 + 10
                    else score2);
          score4 = (if total_calls st > 0
                    then score3 + (of_nat (total_successes st) / of_nat (total_calls st)) * 15
                    else score3)
      in score4 + (case map_of speed_map (speed model_info) of None \<Rightarrow> 0 | Some v \<Rightarrow> v))"

fun scored_loop :: "health_status \<Rightarrow> string \<Rightarrow> registry \<Rightarrow> error + (string \<times> rat) list" where
  "scored_loop hs task_type [] = Inr []"
| "scored_loop hs task_type ((model_name, model_info) # items) =
     (case getitem hs model_name of
        Inl e \<Rightarrow> Inl e
      | Inr st \<Rightarrow>
          if is_healthy st = Some False \<and> consecutive_failures st \<ge> 2
          then scored_loop hs task_type items
          else
            (case scored_loop hs task_type items of
               Inl e \<Rightarrow> Inl e
             | Inr scored_models \<Rightarrow>
                 Inr ((model_name, suitability_score task_type model_info st) # scored_models)))"

definition get_suitable_models :: "registry \<Rightarrow> health_status \<Rightarrow> string \<Rightarrow> error + string list" where
  "get_suitable_models reg hs task_type =
     (case scored_loop hs task_type reg of
        Inl e \<Rightarrow> Inl e
      | Inr scored_models \<Rightarrow> Inr (map fst (sort_reverse snd scored_models)))"


subsection \<open>\<^verbatim>\<open>_call_single_model\<close>\<close>

text \<open>
  What a provider call comes back with: an exception with its message, or a value of
  type \<^verbatim>\<open>Optional[str]\<close>.
\<close>

datatype response = Raises string | Returns "string option"

text \<open>
  The world around one run of \<^verbatim>\<open>generate_with_fallback\<close>. Within a run every call is
  identified by the model tried and the attempt number, so the remote services, the
  stopwatch and the clock are functions of that pair.
  \<^item> \<open>openrouter_client\<close>: \<^verbatim>\<open>self.openrouter_client\<close> is not \<^verbatim>\<open>None\<close>;
  \<^item> \<open>gemini_key_unset\<close>: \<^verbatim>\<open>"YOUR_" in GEMINI_API_KEY\<close>;
  \<^item> \<open>openrouter\<close>, \<open>gemini\<close>: the outcome of the remote call made with the given
    arguments;
  \<^item> \<open>elapsed\<close>: \<^verbatim>\<open>time.time() - start_time\<close>; \<open>clock\<close>: \<^verbatim>\<open>datetime.now().isoformat()\<close>.
\<close>

record env =
  openrouter_client :: bool
  gemini_key_unset :: bool
  openrouter :: "string \<times> int \<Rightarrow> string \<Rightarrow> string \<Rightarrow> int \<Rightarrow> rat \<Rightarrow> response"
  gemini :: "string \<times> int \<Rightarrow> string \<Rightarrow> int \<Rightarrow> rat \<Rightarrow> response"
  elapsed :: "string \<times> int \<Rightarrow> rat"
  clock :: "string \<times> int \<Rightarrow> string"

definition call_openrouter :: "env \<Rightarrow> string \<times> int \<Rightarrow> string \<Rightarrow> string \<Rightarrow> int \<Rightarrow> rat \<Rightarrow> response" where
  "call_openrouter w cid mid prompt max_tokens temperature =
     (if \<not> openrouter_client w then Raises ''OpenRouter client not initialized''
      else openrouter w cid mid prompt max_tokens temperature)"

definition call_gemini_direct :: "env \<Rightarrow> string \<times> int \<Rightarrow> string \<Rightarrow> int \<Rightarrow> rat \<Rightarrow> response" where
  "call_gemini_direct w cid prompt max_tokens temperature =
     (if gemini_key_unset w then Raises ''Gemini API key not configured''
      else gemini w cid prompt max_tokens temperature)"

text \<open>
  \<^verbatim>\<open>_call_single_model\<close>. \<^verbatim>\<open>AI_MODELS[model_name]\<close> on an unknown name raises
  \<^verbatim>\<open>KeyError\<close>, whose message is the quoted key.
\<close>

definition call_single_model ::
    "env \<Rightarrow> registry \<Rightarrow> string \<times> int \<Rightarrow> string \<Rightarrow> string \<Rightarrow> int \<Rightarrow> rat \<Rightarrow> response" where
  "call_single_model w reg cid model_name prompt max_tokens temperature =
     (case getitem reg model_name of
        Inl (KeyError k) \<Rightarrow> Raises ([CHR 0x27] @ k @ [CHR 0x27])
      | Inr model_info \<Rightarrow>
          if provider model_info = ''openrouter''
          then call_openrouter w cid (model_id model_info) prompt max_tokens temperature
          else if provider model_info = ''gemini_direct''
          then call_gemini_direct w cid prompt max_tokens temperature
          else Returns None)"

subsection \<open>\<^verbatim>\<open>generate_with_fallback\<close>\<close>

definition RETRY_DELAY :: rat where
  "RETRY_DELAY = 2"

text \<open>
  The state of a run: the tracker, and a record of what the run did to the outside
  world, in order: the provider calls (model, attempt) and the sleeps.
\<close>

datatype gen_event = Tried string int | Waited rat

record gen_state =
  tracker :: health_status
  trace :: "gen_event list"

text \<open>
  The inner loop \<^verbatim>\<open>for attempt in range(1, max_attempts_per_model + 1)\<close>, over the
  attempts still to make. It ends the whole function with \<open>Some (result, model_name)\<close>
  at the \<^verbatim>\<open>return\<close>, and leaves \<open>None\<close> when the range is used up.

  \<^verbatim>\<open>mark_success\<close> is called inside the \<^verbatim>\<open>try\<close>: an exception from it is handled by
  the \<^verbatim>\<open>except\<close> branch like one from the provider; an exception from \<^verbatim>\<open>mark_failure\<close>
  in the handler leaves the function.
\<close>

fun attempt_loop ::
    "env \<Rightarrow> registry \<Rightarrow> string \<Rightarrow> int \<Rightarrow> rat \<Rightarrow> int \<Rightarrow> string \<Rightarrow> int list \<Rightarrow> gen_state
      \<Rightarrow> error + ((string \<times> string) option \<times> gen_state)" where
  "attempt_loop w reg prompt max_tokens temperature max_attempts_per_model model_name [] s =
     Inr (None, s)"
| "attempt_loop w reg prompt max_tokens temperature max_attempts_per_model model_name
      (attempt # rest) s =
     (let cid = (model_name, attempt);
          s1 = s\<lparr>trace := trace s @ [Tried model_name attempt]\<rparr>;
          handled =
            (case call_single_model w reg cid model_name prompt max_tokens temperature of
               Raises msg \<Rightarrow>
                 (case mark_failure (tracker s1) model_name msg (clock w cid) of
                    Inl e \<Rightarrow> Inl e
                  | Inr hs \<Rightarrow> Inr (None, s1\<lparr>tracker := hs\<rparr>))
             | Returns None \<Rightarrow> Inr (None, s1)
             | Returns (Some result) \<Rightarrow>
                 if result \<noteq> [] \<and> length result > 50
                 then
                   (case mark_success (tracker s1) model_name (elapsed w cid) (clock w cid) of
                      Inr hs \<Rightarrow> Inr (Some (result, model_name), s1\<lparr>tracker := hs\<rparr>)
                    | Inl (KeyError k) \<Rightarrow>
                        (case mark_failure (tracker s1) model_name
                                ([CHR 0x27] @ k @ [CHR 0x27]) (clock w cid) of
                           Inl e \<Rightarrow> Inl e
                         | Inr hs \<Rightarrow> Inr (None, s1\<lparr>tracker := hs\<rparr>)))
                 else Inr (None, s1))
      in case handled of
           Inl e \<Rightarrow> Inl e
         | Inr (Some found, s2) \<Rightarrow> Inr (Some found, s2)
         | Inr (None, s2) \<Rightarrow>
             attempt_loop w reg prompt max_tokens temperature max_attempts_per_model model_name rest
               (if attempt < max_attempts_per_model
                then s2\<lparr>trace := trace s2 @ [Waited RETRY_DELAY]\<rparr>
                else s2))"

text \<open>The outer loop \<^verbatim>\<open>for model_name in suitable_models\<close>.\<close>

fun model_loop ::
    "env \<Rightarrow> registry \<Rightarrow> string \<Rightarrow> int \<Rightarrow> rat \<Rightarrow> int \<Rightarrow> string list \<Rightarrow> gen_state
      \<Rightarrow> error + ((string \<times> string) option \<times> gen_state)" where
  "model_loop w reg prompt max_tokens temperature max_attempts_per_model [] s = Inr (None, s)"
| "model_loop w reg prompt max_tokens temperature max_attempts_per_model (model_name # rest) s =
     (case getitem reg model_name of
        Inl e \<Rightarrow> Inl e
      | Inr model_info \<Rightarrow>
          (case attempt_loop w reg prompt max_tokens temperature max_attempts_per_model
                  model_name [1..max_attempts_per_model] s of
             Inl e \<Rightarrow> Inl e
           | Inr (Some found, s') \<Rightarrow> Inr (Some found, s')
           | Inr (None, s') \<Rightarrow>
               model_loop w reg prompt max_tokens temperature max_attempts_per_model rest s'))"

text \<open>
  \<^verbatim>\<open>generate_with_fallback\<close>: the pair \<^verbatim>\<open>(generated_text, model_used)\<close>, or
  \<^verbatim>\<open>(None, None)\<close>, together with the tracker as the run left it and the trace of the
  run.
\<close>

definition generate_with_fallback ::
    "env \<Rightarrow> registry \<Rightarrow> health_status \<Rightarrow> string \<Rightarrow> string \<Rightarrow> int \<Rightarrow> rat \<Rightarrow> int
      \<Rightarrow> error + ((string option \<times> string option) \<times> gen_state)" where
  "generate_with_fallback w reg hs prompt task_type max_tokens temperature max_attempts_per_model =
     (case get_suitable_models reg hs task_type of
        Inl e \<Rightarrow> Inl e
      | Inr suitable_models \<Rightarrow>
          if suitable_models = [] then Inr ((None, None), \<lparr>tracker = hs, trace = []\<rparr>)
          else
            (case model_loop w reg prompt max_tokens temperature max_attempts_per_model
                    suitable_models \<lparr>tracker = hs, trace = []\<rparr> of
               Inl e \<Rightarrow> Inl e
             | Inr (Some (result, model_name), s) \<Rightarrow> Inr ((Some result, Some model_name), s)
             | Inr (None, s) \<Rightarrow> Inr ((None, None), s)))"


section \<open>Failure tracker (\<^verbatim>\<open>models/failure_tracker.py\<close>)\<close>

definition MAX_RETRY_ATTEMPTS :: int where
  "MAX_RETRY_ATTEMPTS = 5"

definition RETRY_BASE_DELAY :: rat where
  "RETRY_BASE_DELAY = 1"

definition RETRY_MAX_DELAY :: rat where
  "RETRY_MAX_DELAY = 32"

text \<open>
  \<^verbatim>\<open>self.data\<close>: the keys \<^verbatim>\<open>"total_failures"\<close> (here \<open>failure_count\<close>, the health record
  has a field of the same name), \<^verbatim>\<open>"failure_log"\<close> and \<^verbatim>\<open>"last_updated"\<close>. The counter
  is read from a JSON file at start, so it is an integer.
\<close>

record failure_entry =
  timestamp :: string
  error_type :: string
  details :: string
  retry_count :: int

record failure_data =
  failure_count :: int
  failure_log :: "failure_entry list"
  last_updated :: string

text \<open>
  The tracker object and the file behind it: \<open>data\<close> is \<^verbatim>\<open>self.data\<close>, \<open>saved\<close> is what
  the JSON file holds (\<open>None\<close>: no file yet).
\<close>

record failure_tracker =
  data :: failure_data
  saved :: "failure_data option"

text \<open>
  \<^verbatim>\<open>_save_data\<close>: stamps \<^verbatim>\<open>last_updated\<close>, then writes the file. An exception while
  writing is caught and only printed; \<open>ok\<close> says whether the write went through, and a
  write that did not leaves the file as it was.
\<close>

definition save_data :: "failure_tracker \<Rightarrow> string \<Rightarrow> bool \<Rightarrow> failure_tracker" where
  "save_data ft now ok =
     (let d = (data ft)\<lparr>last_updated := now\<rparr>
      in \<lparr>data = d, saved = (if ok then Some d else saved ft)\<rparr>)"

text \<open>\<^verbatim>\<open>increment_failure_counter\<close>: the new count and the tracker.\<close>

definition increment_failure_counter :: "failure_tracker \<Rightarrow> string \<Rightarrow> bool \<Rightarrow> int \<times> failure_tracker" where
  "increment_failure_counter ft now ok =
     (let ft1 = ft\<lparr>data := (data ft)\<lparr>failure_count := failure_count (data ft) + 1\<rparr>\<rparr>;
          ft2 = save_data ft1 now ok
      in (failure_count (data ft2), ft2))"

text \<open>
  \<^verbatim>\<open>log_failure\<close>: \<open>stamp\<close> is the clock reading of the entry, \<open>now\<close> the one of the
  save. \<^verbatim>\<open>log[-100:]\<close> keeps the last 100 entries.
\<close>

definition log_failure ::
    "failure_tracker \<Rightarrow> string \<Rightarrow> string \<Rightarrow> int \<Rightarrow> string \<Rightarrow> string \<Rightarrow> bool \<Rightarrow> failure_tracker" where
  "log_failure ft etype dets count stamp now ok =
     (let failure_entry =
            \<lparr>timestamp = stamp, error_type = etype, details = dets, retry_count = count\<rparr>;
          log1 = failure_log (data ft) @ [failure_entry];
          log2 = (if length log1 > 100 then drop (length log1 - 100) log1 else log1)
      in save_data (ft\<lparr>data := (data ft)\<lparr>failure_log := log2\<rparr>\<rparr>) now ok)"

text \<open>
  \<^verbatim>\<open>calculate_retry_delay\<close>: \<^verbatim>\<open>2 ** (attempt - 1)\<close> is a power with an integer
  exponent (a fraction for a negative one).
\<close>

definition calculate_retry_delay :: "int \<Rightarrow> rat" where
  "calculate_retry_delay attempt =
     (let delay = RETRY_BASE_DELAY * (2 powi (attempt - 1))
      in min delay RETRY_MAX_DELAY)"

section \<open>Retry handler (\<^verbatim>\<open>utils/retry_handler.py\<close>)\<close>

text \<open>Python's \<^verbatim>\<open>str\<close> of an integer, for the f-string of the log entry.\<close>

fun str_nat :: "nat \<Rightarrow> string" where
  "str_nat n =
     (if n < 10 then [char_of (48 + n)] else str_nat (n div 10) @ [char_of (48 + n mod 10)])"

definition str_int :: "int \<Rightarrow> string" where
  "str_int i = (if i < 0 then CHR ''-'' # str_nat (nat (- i)) else str_nat (nat i))"

text \<open>
  What one call of the wrapped function does: it raises an exception with a message,
  or returns a value, which may be \<^verbatim>\<open>None\<close>.
\<close>

datatype 'a outcome = Raised string | Returned "'a option"

text \<open>
  The world around one run of \<^verbatim>\<open>retry_with_backoff\<close>, as functions of the attempt
  number: what \<^verbatim>\<open>func\<close> does, the value of \<^verbatim>\<open>random.uniform(0.1, 0.5)\<close>, and for the
  clock readings and file writes of an attempt their number within it (0: the stamp
  of the log entry; 1: the save of \<^verbatim>\<open>log_failure\<close>; 2: the save of
  \<^verbatim>\<open>increment_failure_counter\<close>).
\<close>

record 'a retry_env =
  func :: "int \<Rightarrow> 'a outcome"
  jitter :: "int \<Rightarrow> rat"
  now_iso :: "int \<Rightarrow> nat \<Rightarrow> string"
  write_ok :: "int \<Rightarrow> nat \<Rightarrow> bool"

text \<open>
  What a run does to the outside world, in order: calls of \<^verbatim>\<open>func\<close>, the two webhook
  notifications (the notifier catches its own exceptions and never raises), and
  \<^verbatim>\<open>time.sleep\<close>.
\<close>

datatype retry_event =
    Called int
  | NotifyRetryAttempt int int rat
  | Slept rat
  | NotifyError string int

record retry_state =
  ftracker :: failure_tracker
  events :: "retry_event list"

text \<open>
  The loop \<^verbatim>\<open>for attempt in range(1, max_retries + 1)\<close>, over the attempts still to
  make. A \<^verbatim>\<open>None\<close> from \<^verbatim>\<open>func\<close> is turned into an exception and handled like one.
\<close>

fun retry_loop :: "'a retry_env \<Rightarrow> int \<Rightarrow> int list \<Rightarrow> retry_state \<Rightarrow> 'a option \<times> retry_state" where
  "retry_loop w max_retries [] s = (None, s)"
| "retry_loop w max_retries (attempt # rest) s =
     (let s1 = s\<lparr>events := events s @ [Called attempt]\<rparr>
      in case (case func w attempt of
                 Returned (Some result) \<Rightarrow> Inr result
               | Returned None \<Rightarrow> Inl ''Function returned None''
               | Raised msg \<Rightarrow> Inl msg) of
           Inr result \<Rightarrow> (Some result, s1)
         | Inl error_msg \<Rightarrow>
             (let s2 = s1\<lparr>ftracker :=
                          log_failure (ftracker s1) ''retry_attempt''
                            (''Attempt '' @ str_int attempt @ '': '' @ error_msg) attempt
                            (now_iso w attempt 0) (now_iso w attempt 1) (write_ok w attempt 1)\<rparr>
              in if attempt < max_retries
                 then
                   (let delay = calculate_retry_delay attempt;
                        s3 = s2\<lparr>events := events s2 @ [NotifyRetryAttempt attempt max_retries delay]\<rparr>;
                        s4 = s3\<lparr>events := events s3 @ [Slept (delay + jitter w attempt)]\<rparr>
                    in retry_loop w max_retries rest s4)
                 else
                   (let (count, ft) =
                          increment_failure_counter (ftracker s2)
                            (now_iso w attempt 2) (write_ok w attempt 2);
                        s3 = s2\<lparr>ftracker := ft\<rparr>;
                        s4 = s3\<lparr>events := events s3 @ [NotifyError error_msg count]\<rparr>
                    in (None, s4))))"

definition retry_with_backoff :: "'a retry_env \<Rightarrow> int \<Rightarrow> retry_state \<Rightarrow> 'a option \<times> retry_state" where
  "retry_with_backoff w max_retries s = retry_loop w max_retries [1..max_retries] s"


section \<open>Reference definitions for the statements\<close>



text \<open>
  Three tracker states used as concrete inputs: the fresh tracker of \<open>AI_MODELS\<close>
  after one failure of \<^verbatim>\<open>mistral-nemo\<close>; after two failures of it; and after one success
  each of \<^verbatim>\<open>llama-3.3-70b\<close> (1 second) and \<^verbatim>\<open>qwen-2.5-72b\<close> (3 seconds).
\<close>

definition unhealthy_once :: health_status where
  "unhealthy_once =
     AList.update ''mistral-nemo''
       (initial_status\<lparr>is_healthy := Some False, last_failure := Some ''t1'',
          consecutive_failures := 1, total_calls := 1, total_failures := 1\<rparr>)
       (ModelHealthTracker_init AI_MODELS)"

definition two_successes :: health_status where
  "two_successes =
     AList.update ''qwen-2.5-72b''
       (initial_status\<lparr>is_healthy := Some True, last_success := Some ''t2'',
          total_calls := 1, total_successes := 1, avg_response_time := 3\<rparr>)
       (AList.update ''llama-3.3-70b''
          (initial_status\<lparr>is_healthy := Some True, last_success := Some ''t1'',
             total_calls := 1, total_successes := 1, avg_response_time := 1\<rparr>)
          (ModelHealthTracker_init AI_MODELS))"

definition unhealthy_twice :: health_status where
  "unhealthy_twice =
     AList.update ''mistral-nemo''
       (initial_status\<lparr>is_healthy := Some False, last_failure := Some ''t2'',
          consecutive_failures := 2, total_calls := 2, total_failures := 2\<rparr>)
       (ModelHealthTracker_init AI_MODELS)"

text \<open>
  Projections of the trace of a retry run (the calls of the wrapped function, the
  backoff sleeps), and what counts as a failed call of the wrapped function: an
  exception, or the result \<^verbatim>\<open>None\<close>.
\<close>

fun is_called :: "retry_event \<Rightarrow> bool" where
  "is_called (Called _) = True"
| "is_called _ = False"

fun is_slept :: "retry_event \<Rightarrow> bool" where
  "is_slept (Slept _) = True"
| "is_slept _ = False"

definition fails :: "'a outcome \<Rightarrow> bool" where
  "fails r = (case r of Raised _ \<Rightarrow> True | Returned None \<Rightarrow> True | Returned (Some _) \<Rightarrow> False)"

text \<open>
  For \<^verbatim>\<open>generate_with_fallback\<close>: the provider calls of a trace, in order; the reply
  that the call \<open>c = (model_name, attempt)\<close> gets; a reply that is a text of more than
  50 characters; and the relation between the result \<open>r\<close> of a loop and the calls
  \<open>new\<close> it made: no call before the last got such a reply, and the last one got it
  exactly when the loop returned its text.
\<close>

fun tried_calls :: "gen_event list \<Rightarrow> (string \<times> int) list" where
  "tried_calls [] = []"
| "tried_calls (Tried m a # es) = (m, a) # tried_calls es"
| "tried_calls (Waited d # es) = tried_calls es"

definition accepted :: "response \<Rightarrow> bool" where
  "accepted r = (case r of Returns (Some t) \<Rightarrow> 50 < length t | _ \<Rightarrow> False)"

definition reply :: "env \<Rightarrow> registry \<Rightarrow> string \<Rightarrow> int \<Rightarrow> rat \<Rightarrow> string \<times> int \<Rightarrow> response" where
  "reply w reg prompt max_tokens temperature c =
     call_single_model w reg c (fst c) prompt max_tokens temperature"

definition settled ::
    "(string \<times> int \<Rightarrow> response) \<Rightarrow> (string \<times> string) option \<Rightarrow> (string \<times> int) list \<Rightarrow> bool" where
  "settled rp r new =
     (list_all (\<lambda>c. \<not> accepted (rp c)) (butlast new) \<and>
      (case r of
         None \<Rightarrow> list_all (\<lambda>c. \<not> accepted (rp c)) new
       | Some (t, m) \<Rightarrow>
           new \<noteq> [] \<and> fst (last new) = m \<and> rp (last new) = Returns (Some t) \<and> 50 < length t))"

text \<open>
  Two worlds used as concrete inputs. In the first, OpenRouter answers every call
  with a short error text and no exception, and the direct Gemini API answers with a
  text of 76 characters. In the second, every provider answers with a text of exactly
  50 characters. \<open>after_short_replies\<close> is the fresh tracker of \<open>AI_MODELS\<close> after one
  success of \<^verbatim>\<open>gemini-direct\<close>.
\<close>

definition long_text :: string where
  "long_text = ''Tonight a quiet studio announced a sequel nobody expected, and fans cheered.''"

definition text50 :: string where
  "text50 = ''This reply holds exactly fifty characters of text.''"

definition short_openrouter :: env where
  "short_openrouter =
     \<lparr>openrouter_client = True, gemini_key_unset = False,
      openrouter = (\<lambda>cid mid prompt max_tokens temperature. Returns (Some ''Rate limit exceeded'')),
      gemini = (\<lambda>cid prompt max_tokens temperature. Returns (Some long_text)),
      elapsed = (\<lambda>cid. 1),
      clock = (\<lambda>cid. ''2025-01-01T00:00:00'')\<rparr>"

definition fifty_everywhere :: env where
  "fifty_everywhere =
     \<lparr>openrouter_client = True, gemini_key_unset = False,
      openrouter = (\<lambda>cid mid prompt max_tokens temperature. Returns (Some text50)),
      gemini = (\<lambda>cid prompt max_tokens temperature. Returns (Some text50)),
      elapsed = (\<lambda>cid. 1),
      clock = (\<lambda>cid. ''2025-01-01T00:00:00'')\<rparr>"

definition after_short_replies :: health_status where
  "after_short_replies =
     AList.update ''gemini-direct''
       (initial_status\<lparr>is_healthy := Some True, last_success := Some ''2025-01-01T00:00:00'',
          total_calls := 1, total_successes := 1, avg_response_time := 1\<rparr>)
       (ModelHealthTracker_init AI_MODELS)"

section \<open>Properties of the health tracker\<close>

lemma map_of_foldl_update:
  "map_of (foldl (\<lambda>hs k. AList.update k v hs) acc ks) m =
     (if m \<in> set ks then Some v else map_of acc m)"
  by (induction ks arbitrary: acc) (auto simp: update_conv')

lemma map_of_init:
  "map_of (ModelHealthTracker_init reg) m =
     (if m \<in> fst ` set reg then Some initial_status else None)"
  by (simp add: ModelHealthTracker_init_def map_of_foldl_update)

lemma run_calls_append:
  "run_calls hs (cs @ ds) =
     (case run_calls hs cs of Inl e \<Rightarrow> Inl e | Inr hs' \<Rightarrow> run_calls hs' ds)"
  by (induction cs arbitrary: hs) (auto split: sum.splits)

lemma mark_success_map_of:
  "map_of hs m = Some st \<Longrightarrow>
   \<exists>hs' st'. mark_success hs m rt now = Inr hs' \<and> map_of hs' = (map_of hs)(m \<mapsto> st') \<and>
     is_healthy st' = Some True \<and> consecutive_failures st' = 0 \<and>
     total_calls st' = total_calls st + 1 \<and> total_successes st' = total_successes st + 1 \<and>
     total_failures st' = total_failures st"
  apply (simp add: mark_success_def getitem_def Let_def update_conv')
  apply (rule exI, rule conjI, rule refl)
  apply simp
  done

lemma mark_failure_map_of:
  "map_of hs m = Some st \<Longrightarrow>
   \<exists>hs' st'. mark_failure hs m err now = Inr hs' \<and> map_of hs' = (map_of hs)(m \<mapsto> st') \<and>
     is_healthy st' = Some False \<and> consecutive_failures st' = consecutive_failures st + 1 \<and>
     total_calls st' = total_calls st + 1 \<and> total_successes st' = total_successes st \<and>
     total_failures st' = total_failures st + 1"
  apply (simp add: mark_failure_def getitem_def update_conv')
  apply (rule exI, rule conjI, rule refl)
  apply simp
  done

lemma reset_model_map_of:
  "map_of hs m = Some st \<Longrightarrow>
   \<exists>st'. map_of (reset_model hs m) = (map_of hs)(m \<mapsto> st') \<and>
     is_healthy st' = None \<and> consecutive_failures st' = 0 \<and>
     total_calls st' = total_calls st \<and> total_successes st' = total_successes st \<and>
     total_failures st' = total_failures st"
  apply (simp add: reset_model_def update_conv')
  apply (rule exI, rule conjI, rule refl)
  apply simp
  done

lemma reset_model_unknown: "map_of hs m = None \<Longrightarrow> reset_model hs m = hs"
  by (simp add: reset_model_def)

lemma failures_since_success_snoc:
  "failures_since_success m (cs @ [c]) =
     (if target c = m then (if is_mark_failure c then Suc (failures_since_success m cs) else 0)
      else failures_since_success m cs)"
  by (simp add: failures_since_success_def)


lemma dom_init: "dom (map_of (ModelHealthTracker_init reg)) = fst ` set reg"
  by (auto simp: map_of_init dom_def)

lemma apply_call_step:
  assumes "map_of hs (target c) = Some st"
  shows "\<exists>hs' st'. apply_call hs c = Inr hs' \<and> map_of hs' = (map_of hs)(target c \<mapsto> st') \<and>
           consecutive_failures st' =
             (if is_mark_failure c then consecutive_failures st + 1 else 0) \<and>
           total_calls st' = (if is_reset c then total_calls st else total_calls st + 1) \<and>
           total_successes st' =
             (if is_reset c \<or> is_mark_failure c then total_successes st
              else total_successes st + 1) \<and>
           total_failures st' =
             (if is_mark_failure c then total_failures st + 1 else total_failures st)"
proof (cases c)
  case (MarkSuccess m rt now)
  with mark_success_map_of[of hs m st rt now] assms show ?thesis by auto
next
  case (MarkFailure m err now)
  with mark_failure_map_of[of hs m st err now] assms show ?thesis by auto
next
  case (ResetModel m)
  with reset_model_map_of[of hs m st] assms show ?thesis by auto
qed

lemma cf_after_calls:
  assumes "\<forall>c\<in>set cs. \<not> is_reset c" and "\<forall>c\<in>set cs. target c \<in> fst ` set reg"
    and "m \<in> fst ` set reg"
  shows "\<exists>hs st. run_calls (ModelHealthTracker_init reg) cs = Inr hs \<and>
           dom (map_of hs) = fst ` set reg \<and> map_of hs m = Some st \<and>
           consecutive_failures st = failures_since_success m cs"
  using assms
proof (induction cs rule: rev_induct)
  case Nil
  then show ?case
    by (simp add: dom_init map_of_init failures_since_success_def initial_status_def)
next
  case (snoc c cs)
  then obtain hs st where run: "run_calls (ModelHealthTracker_init reg) cs = Inr hs"
    and dom: "dom (map_of hs) = fst ` set reg" and m: "map_of hs m = Some st"
    and cf: "consecutive_failures st = failures_since_success m cs"
    by auto
  from snoc.prems have "target c \<in> dom (map_of hs)"
    by (simp add: dom)
  then obtain st0 where st0: "map_of hs (target c) = Some st0"
    by blast
  from apply_call_step[OF st0] obtain hs' st' where
    step: "apply_call hs c = Inr hs'" and upd: "map_of hs' = (map_of hs)(target c \<mapsto> st')"
    and cf': "consecutive_failures st' =
               (if is_mark_failure c then consecutive_failures st0 + 1 else 0)"
    by blast
  have run': "run_calls (ModelHealthTracker_init reg) (cs @ [c]) = Inr hs'"
    by (simp add: run_calls_append run step)
  have dom': "dom (map_of hs') = fst ` set reg"
    using upd dom st0 by auto
  show ?case
  proof (cases "target c = m")
    case True
    with st0 m have "st0 = st" by simp
    with True cf cf' upd run' dom' show ?thesis
      by (simp add: failures_since_success_snoc)
  next
    case False
    with upd m cf run' dom' show ?thesis
      by (simp add: failures_since_success_snoc)
  qed
qed

lemma inv_after_calls:
  assumes "run_calls hs cs = Inr hs'"
    and "\<forall>m st. map_of hs m = Some st \<longrightarrow> total_calls st = total_successes st + total_failures st"
    and "map_of hs' m = Some st"
  shows "total_calls st = total_successes st + total_failures st"
  using assms
proof (induction cs arbitrary: hs)
  case Nil
  then show ?case by simp
next
  case (Cons c cs)
  from Cons.prems(1) obtain hs1 where step: "apply_call hs c = Inr hs1"
    and rest: "run_calls hs1 cs = Inr hs'"
    by (auto split: sum.splits)
  have "\<forall>m st. map_of hs1 m = Some st \<longrightarrow> total_calls st = total_successes st + total_failures st"
  proof (cases "map_of hs (target c)")
    case None
    then have "hs1 = hs" using step
      by (cases c) (auto simp: mark_success_def mark_failure_def getitem_def reset_model_unknown)
    with Cons.prems(2) show ?thesis by simp
  next
    case (Some st0)
    from apply_call_step[OF Some] step obtain st' where
      upd: "map_of hs1 = (map_of hs)(target c \<mapsto> st')"
      and c1: "total_calls st' = (if is_reset c then total_calls st0 else total_calls st0 + 1)"
      and c2: "total_successes st' =
             (if is_reset c \<or> is_mark_failure c then total_successes st0
              else total_successes st0 + 1)"
      and c3: "total_failures st' =
             (if is_mark_failure c then total_failures st0 + 1 else total_failures st0)"
      by auto
    from Cons.prems(2) Some have "total_calls st0 = total_successes st0 + total_failures st0"
      by blast
    with c1 c2 c3 have "total_calls st' = total_successes st' + total_failures st'"
      by (cases c) auto
    with upd Cons.prems(2) show ?thesis by auto
  qed
  from Cons.IH[OF rest this Cons.prems(3)] show ?case .
qed


lemma run_calls_total:
  assumes "\<forall>c\<in>set cs. target c \<in> dom (map_of hs)"
  shows "\<exists>hs'. run_calls hs cs = Inr hs' \<and> dom (map_of hs') = dom (map_of hs)"
  using assms
proof (induction cs arbitrary: hs)
  case Nil
  then show ?case by simp
next
  case (Cons c cs)
  then obtain st0 where st0: "map_of hs (target c) = Some st0"
    by auto
  from apply_call_step[OF st0] obtain hs1 st' where
    step: "apply_call hs c = Inr hs1" and upd: "map_of hs1 = (map_of hs)(target c \<mapsto> st')"
    by blast
  have dom1: "dom (map_of hs1) = dom (map_of hs)"
    using upd st0 by auto
  with Cons.prems have "\<forall>c\<in>set cs. target c \<in> dom (map_of hs1)"
    by simp
  from Cons.IH[OF this] step dom1 show ?case
    by simp
qed

text \<open>
  Claim C9. For every sequence of \<^verbatim>\<open>mark_success\<close> and \<^verbatim>\<open>mark_failure\<close> calls on
  registered backends, made on a fresh tracker, no call raises, and the
  \<open>consecutive_failures\<close> field of a backend \<open>m\<close> equals the number of failures
  recorded for \<open>m\<close> since its most recent success (or since the start if it never
  succeeded). On any tracker, a success on \<open>m\<close> sets the field to 0 and a failure on
  \<open>m\<close> adds exactly 1 to it.
\<close>

theorem consecutive_failures_since_last_success:
  assumes "\<forall>c\<in>set cs. \<not> is_reset c" and "\<forall>c\<in>set cs. target c \<in> fst ` set reg"
    and "m \<in> fst ` set reg"
  shows "(\<exists>hs st. run_calls (ModelHealthTracker_init reg) cs = Inr hs \<and>
            map_of hs m = Some st \<and>
            consecutive_failures st = failures_since_success m cs) \<and>
         (\<forall>hs0 st0 rt now. map_of hs0 m = Some st0 \<longrightarrow>
            (\<exists>hs1 st1. mark_success hs0 m rt now = Inr hs1 \<and> map_of hs1 m = Some st1 \<and>
               consecutive_failures st1 = 0)) \<and>
         (\<forall>hs0 st0 err now. map_of hs0 m = Some st0 \<longrightarrow>
            (\<exists>hs1 st1. mark_failure hs0 m err now = Inr hs1 \<and> map_of hs1 m = Some st1 \<and>
               consecutive_failures st1 = consecutive_failures st0 + 1))"
proof (intro conjI allI impI)
  from cf_after_calls[OF assms]
  show "\<exists>hs st. run_calls (ModelHealthTracker_init reg) cs = Inr hs \<and>
            map_of hs m = Some st \<and> consecutive_failures st = failures_since_success m cs"
    by blast
next
  fix hs0 :: health_status and st0 :: status and rt :: rat and now :: string
  assume "map_of hs0 m = Some st0"
  from mark_success_map_of[OF this, of rt now]
  show "\<exists>hs1 st1. mark_success hs0 m rt now = Inr hs1 \<and> map_of hs1 m = Some st1 \<and>
               consecutive_failures st1 = 0"
    by auto
next
  fix hs0 :: health_status and st0 :: status and err :: string and now :: string
  assume "map_of hs0 m = Some st0"
  from mark_failure_map_of[OF this, of err now]
  show "\<exists>hs1 st1. mark_failure hs0 m err now = Inr hs1 \<and> map_of hs1 m = Some st1 \<and>
               consecutive_failures st1 = consecutive_failures st0 + 1"
    by auto
qed

theorem consecutive_failures_since_last_success_witness:
  "\<exists>hs st.
     run_calls (ModelHealthTracker_init AI_MODELS)
       [MarkFailure ''mistral-nemo'' ''timeout'' ''t1'',
        MarkSuccess ''mistral-nemo'' 2 ''t2'',
        MarkFailure ''mistral-nemo'' ''timeout'' ''t3'',
        MarkFailure ''gemini-direct'' ''quota'' ''t4'',
        MarkSuccess ''gemini-direct'' 1 ''t5'',
        MarkFailure ''mistral-nemo'' ''timeout'' ''t6''] = Inr hs \<and>
     map_of hs ''mistral-nemo'' = Some st \<and> consecutive_failures st = 2"
proof -
  let ?cs = "[MarkFailure ''mistral-nemo'' ''timeout'' ''t1'',
        MarkSuccess ''mistral-nemo'' 2 ''t2'',
        MarkFailure ''mistral-nemo'' ''timeout'' ''t3'',
        MarkFailure ''gemini-direct'' ''quota'' ''t4'',
        MarkSuccess ''gemini-direct'' 1 ''t5'',
        MarkFailure ''mistral-nemo'' ''timeout'' ''t6'']"
  have h1: "\<forall>c\<in>set ?cs. \<not> is_reset c"
    by simp
  have h2: "\<forall>c\<in>set ?cs. target c \<in> fst ` set AI_MODELS"
    by (simp add: AI_MODELS_def)
  have h3: "''mistral-nemo'' \<in> fst ` set AI_MODELS"
    by (simp add: AI_MODELS_def)
  have e: "failures_since_success ''mistral-nemo'' ?cs = 2"
    by (simp add: failures_since_success_def)
  from consecutive_failures_since_last_success[OF h1 h2 h3, unfolded e]
  show ?thesis
    by (rule conjunct1)
qed

text \<open>
  Claim C10. After every sequence of \<^verbatim>\<open>mark_success\<close>, \<^verbatim>\<open>mark_failure\<close> and
  \<^verbatim>\<open>reset_model\<close> calls on a fresh tracker, every backend's record satisfies
  \<open>total_calls = total_successes + total_failures\<close>; a sequence that names registered
  backends only runs to its end without an exception. \<^verbatim>\<open>mark_success\<close> adds 1 to
  \<open>total_calls\<close> and \<open>total_successes\<close> and leaves \<open>total_failures\<close>, \<^verbatim>\<open>mark_failure\<close>
  adds 1 to \<open>total_calls\<close> and \<open>total_failures\<close> and leaves \<open>total_successes\<close>, and
  \<^verbatim>\<open>reset_model\<close> changes none of the three.
\<close>

theorem counters_invariant:
  "(run_calls (ModelHealthTracker_init reg) cs = Inr hs \<and> map_of hs m = Some st \<longrightarrow>
      total_calls st = total_successes st + total_failures st) \<and>
   ((\<forall>c\<in>set cs. target c \<in> fst ` set reg) \<longrightarrow>
      (\<exists>hs'. run_calls (ModelHealthTracker_init reg) cs = Inr hs' \<and>
         dom (map_of hs') = fst ` set reg)) \<and>
   (map_of hs0 m = Some st0 \<longrightarrow>
      (\<exists>hs1 st1. mark_success hs0 m rt now = Inr hs1 \<and> map_of hs1 m = Some st1 \<and>
         total_calls st1 = total_calls st0 + 1 \<and>
         total_successes st1 = total_successes st0 + 1 \<and>
         total_failures st1 = total_failures st0) \<and>
      (\<exists>hs1 st1. mark_failure hs0 m err now = Inr hs1 \<and> map_of hs1 m = Some st1 \<and>
         total_calls st1 = total_calls st0 + 1 \<and>
         total_successes st1 = total_successes st0 \<and>
         total_failures st1 = total_failures st0 + 1) \<and>
      (\<exists>st1. map_of (reset_model hs0 m) m = Some st1 \<and>
         total_calls st1 = total_calls st0 \<and>
         total_successes st1 = total_successes st0 \<and>
         total_failures st1 = total_failures st0))"
proof (intro conjI impI)
  assume a: "run_calls (ModelHealthTracker_init reg) cs = Inr hs \<and> map_of hs m = Some st"
  have "\<forall>m st. map_of (ModelHealthTracker_init reg) m = Some st \<longrightarrow>
          total_calls st = total_successes st + total_failures st"
    by (auto simp: map_of_init initial_status_def split: if_splits)
  with a inv_after_calls show "total_calls st = total_successes st + total_failures st"
    by blast
next
  assume "\<forall>c\<in>set cs. target c \<in> fst ` set reg"
  then have "\<forall>c\<in>set cs. target c \<in> dom (map_of (ModelHealthTracker_init reg))"
    by (simp add: dom_init)
  from run_calls_total[OF this]
  show "\<exists>hs'. run_calls (ModelHealthTracker_init reg) cs = Inr hs' \<and>
         dom (map_of hs') = fst ` set reg"
    by (simp add: dom_init)
next
  assume "map_of hs0 m = Some st0"
  from mark_success_map_of[OF this, of rt now]
  show "\<exists>hs1 st1. mark_success hs0 m rt now = Inr hs1 \<and> map_of hs1 m = Some st1 \<and>
         total_calls st1 = total_calls st0 + 1 \<and>
         total_successes st1 = total_successes st0 + 1 \<and>
         total_failures st1 = total_failures st0"
    by auto
next
  assume "map_of hs0 m = Some st0"
  from mark_failure_map_of[OF this, of err now]
  show "\<exists>hs1 st1. mark_failure hs0 m err now = Inr hs1 \<and> map_of hs1 m = Some st1 \<and>
         total_calls st1 = total_calls st0 + 1 \<and>
         total_successes st1 = total_successes st0 \<and>
         total_failures st1 = total_failures st0 + 1"
    by auto
next
  assume "map_of hs0 m = Some st0"
  from reset_model_map_of[OF this]
  show "\<exists>st1. map_of (reset_model hs0 m) m = Some st1 \<and>
         total_calls st1 = total_calls st0 \<and>
         total_successes st1 = total_successes st0 \<and>
         total_failures st1 = total_failures st0"
    by auto
qed

theorem counters_invariant_witness:
  "(\<exists>hs st.
      run_calls (ModelHealthTracker_init AI_MODELS)
        [MarkFailure ''llama-3.1-8b'' ''timeout'' ''t1'',
         MarkSuccess ''llama-3.1-8b'' 2 ''t2'',
         ResetModel ''llama-3.1-8b'',
         MarkSuccess ''qwen-2.5-72b'' 1 ''t3'',
         MarkFailure ''llama-3.1-8b'' ''timeout'' ''t4''] = Inr hs \<and>
      map_of hs ''llama-3.1-8b'' = Some st \<and>
      total_calls st = total_successes st + total_failures st) \<and>
   (\<exists>hs1 st1.
      mark_success (ModelHealthTracker_init AI_MODELS) ''llama-3.1-8b'' 2 ''t0'' = Inr hs1 \<and>
      map_of hs1 ''llama-3.1-8b'' = Some st1 \<and>
      total_calls st1 = 1 \<and> total_successes st1 = 1 \<and> total_failures st1 = 0) \<and>
   (\<exists>hs1 st1.
      mark_failure (ModelHealthTracker_init AI_MODELS) ''llama-3.1-8b'' ''timeout'' ''t0'' = Inr hs1 \<and>
      map_of hs1 ''llama-3.1-8b'' = Some st1 \<and>
      total_calls st1 = 1 \<and> total_successes st1 = 0 \<and> total_failures st1 = 1) \<and>
   (\<exists>st1.
      map_of (reset_model (ModelHealthTracker_init AI_MODELS) ''llama-3.1-8b'') ''llama-3.1-8b'' =
        Some st1 \<and>
      total_calls st1 = 0 \<and> total_successes st1 = 0 \<and> total_failures st1 = 0)"
proof -
  let ?cs = "[MarkFailure ''llama-3.1-8b'' ''timeout'' ''t1'',
         MarkSuccess ''llama-3.1-8b'' 2 ''t2'',
         ResetModel ''llama-3.1-8b'',
         MarkSuccess ''qwen-2.5-72b'' 1 ''t3'',
         MarkFailure ''llama-3.1-8b'' ''timeout'' ''t4'']"
  let ?m = "''llama-3.1-8b''"
  let ?hs0 = "ModelHealthTracker_init AI_MODELS"
  have h: "\<forall>c\<in>set ?cs. target c \<in> fst ` set AI_MODELS"
    by (simp add: AI_MODELS_def)
  have m: "?m \<in> fst ` set AI_MODELS"
    by (simp add: AI_MODELS_def)
  have st0: "map_of ?hs0 ?m = Some initial_status"
    using m by (simp add: map_of_init)
  note inst = counters_invariant[where reg = AI_MODELS and cs = ?cs and m = ?m
      and ?hs0.0 = ?hs0 and ?st0.0 = initial_status and rt = 2 and now = "''t0''"
      and err = "''timeout''"]
  from inst h obtain hs where run: "run_calls ?hs0 ?cs = Inr hs"
    and dom: "dom (map_of hs) = fst ` set AI_MODELS"
    by blast
  from dom m obtain st where st: "map_of hs ?m = Some st"
    by blast
  from counters_invariant[where reg = AI_MODELS and cs = ?cs and m = ?m and hs = hs and st = st]
    run st
  have "total_calls st = total_successes st + total_failures st"
    by blast
  with run st have a: "\<exists>hs st. run_calls ?hs0 ?cs = Inr hs \<and> map_of hs ?m = Some st \<and>
      total_calls st = total_successes st + total_failures st"
    by blast
  from inst st0 have b: "\<exists>hs1 st1. mark_success ?hs0 ?m 2 ''t0'' = Inr hs1 \<and>
      map_of hs1 ?m = Some st1 \<and>
      total_calls st1 = 1 \<and> total_successes st1 = 1 \<and> total_failures st1 = 0"
    by (simp add: initial_status_def)
  from inst st0 have c: "\<exists>hs1 st1. mark_failure ?hs0 ?m ''timeout'' ''t0'' = Inr hs1 \<and>
      map_of hs1 ?m = Some st1 \<and>
      total_calls st1 = 1 \<and> total_successes st1 = 0 \<and> total_failures st1 = 1"
    by (simp add: initial_status_def)
  from inst st0 have d: "\<exists>st1. map_of (reset_model ?hs0 ?m) ?m = Some st1 \<and>
      total_calls st1 = 0 \<and> total_successes st1 = 0 \<and> total_failures st1 = 0"
    by (simp add: initial_status_def)
  from a b c d show ?thesis
    by blast
qed

section \<open>Properties of the sorts\<close>

lemma set_sort_reverse: "set (sort_reverse f xs) = set xs"
  by (simp add: sort_reverse_def)



section \<open>Properties of \<^verbatim>\<open>get_healthy_models\<close>\<close>

lemma keys_of_length: "keys_of f xs = Inr ks \<Longrightarrow> length ks = length xs"
  by (induction xs arbitrary: ks) (auto split: sum.splits)

lemma keys_of_total:
  "\<forall>x\<in>set xs. \<exists>k. f x = Inr k \<Longrightarrow> \<exists>ks. keys_of f xs = Inr ks"
  by (induction xs) (auto split: sum.splits)

lemma healthy_loop_mem:
  "healthy_loop reg tier_filter items = Inr healthy \<Longrightarrow>
   m \<in> set healthy \<longleftrightarrow>
     (\<exists>st. (m, st) \<in> set items \<and> is_healthy st \<noteq> Some False \<and> consecutive_failures st < 3 \<and>
        (case tier_filter of
           None \<Rightarrow> True
         | Some t \<Rightarrow> t = 0 \<or> (\<exists>info. map_of reg m = Some info \<and> tier info = t)))"
proof (induction items arbitrary: healthy)
  case Nil
  then show ?case by simp
next
  case (Cons a items)
  obtain model_name st where a: "a = (model_name, st)"
    by (cases a)
  let ?pass = "\<lambda>x. case tier_filter of
           None \<Rightarrow> True
         | Some t \<Rightarrow> t = 0 \<or> (\<exists>info. map_of reg x = Some info \<and> tier info = t)"
  show ?case
  proof (cases "is_healthy st = Some False \<or> consecutive_failures st \<ge> 3")
    case True
    with Cons.prems a have "healthy_loop reg tier_filter items = Inr healthy"
      by (auto split: if_splits)
    from Cons.IH[OF this] True a show ?thesis
      by auto
  next
    case False
    show ?thesis
    proof (cases "?pass model_name")
      case True
      with False Cons.prems a obtain rest where
        rest: "healthy_loop reg tier_filter items = Inr rest" and h: "healthy = model_name # rest"
        by (auto simp: getitem_def split: option.splits sum.splits if_splits)
      from Cons.IH[OF rest] h True False a show ?thesis
        by auto
    next
      case nopass: False
      with False Cons.prems a have "healthy_loop reg tier_filter items = Inr healthy"
        by (auto simp: getitem_def split: option.splits sum.splits if_splits)
      from Cons.IH[OF this] nopass a show ?thesis
        by auto
    qed
  qed
qed

lemma healthy_loop_total:
  "fst ` set items \<subseteq> fst ` set reg \<Longrightarrow> \<exists>healthy. healthy_loop reg tier_filter items = Inr healthy"
proof (induction items)
  case Nil
  then show ?case by simp
next
  case (Cons a items)
  obtain model_name st where a: "a = (model_name, st)"
    by (cases a)
  from Cons.prems a obtain info where info: "map_of reg model_name = Some info"
    by (cases "map_of reg model_name") (auto simp: map_of_eq_None_iff)
  from Cons obtain rest where "healthy_loop reg tier_filter items = Inr rest"
    by auto
  with a info show ?case
    by (auto simp: getitem_def split: option.splits bool.splits)
qed

lemma get_healthy_models_set:
  assumes "get_healthy_models reg hs tier_filter = Inr healthy"
  shows "\<exists>selected. healthy_loop reg tier_filter hs = Inr selected \<and> set healthy = set selected"
proof -
  from assms obtain selected ks where sel: "healthy_loop reg tier_filter hs = Inr selected"
    and ks: "keys_of (health_key reg hs) selected = Inr ks"
    and h: "healthy = map snd (sort_reverse fst (zip ks selected))"
    by (auto simp: get_healthy_models_def split: sum.splits)
  from keys_of_length[OF ks] have "map snd (zip ks selected) = selected"
    by simp
  then have "snd ` set (zip ks selected) = set selected"
    by (metis set_map)
  with h have "set healthy = set selected"
    by (simp add: set_sort_reverse)
  with sel show ?thesis
    by blast
qed

lemma get_healthy_models_total:
  assumes "fst ` set hs \<subseteq> fst ` set reg"
  shows "\<exists>healthy. get_healthy_models reg hs tier_filter = Inr healthy"
proof -
  from healthy_loop_total[OF assms] obtain selected where
    sel: "healthy_loop reg tier_filter hs = Inr selected"
    by blast
  have "\<forall>x\<in>set selected. \<exists>k. health_key reg hs x = Inr k"
  proof
    fix x
    assume "x \<in> set selected"
    with healthy_loop_mem[OF sel, of x] have "x \<in> fst ` set hs"
      by force
    with assms have "map_of hs x \<noteq> None" and "map_of reg x \<noteq> None"
      by (auto simp: map_of_eq_None_iff)
    then show "\<exists>k. health_key reg hs x = Inr k"
      by (auto simp: health_key_def getitem_def)
  qed
  from keys_of_total[OF this] sel show ?thesis
    by (auto simp: get_healthy_models_def)
qed

text \<open>
  Claim C4, as amended. When every record of the tracker belongs to a registered
  model, \<^verbatim>\<open>get_healthy_models\<close> returns a list, and a backend is in it exactly when its
  record is not unhealthy, has fewer than 3 consecutive failures, and passes the tier
  filter (no filter for \<^verbatim>\<open>None\<close> or 0). So every unhealthy backend is left out, whatever
  its number of consecutive failures.
\<close>

theorem get_healthy_models_membership:
  assumes "fst ` set hs \<subseteq> fst ` set reg"
  shows "\<exists>healthy. get_healthy_models reg hs tier_filter = Inr healthy \<and>
           (\<forall>m. m \<in> set healthy \<longleftrightarrow>
              (\<exists>st. (m, st) \<in> set hs \<and> is_healthy st \<noteq> Some False \<and>
                 consecutive_failures st < 3 \<and>
                 (case tier_filter of
                    None \<Rightarrow> True
                  | Some t \<Rightarrow> t = 0 \<or> (\<exists>info. map_of reg m = Some info \<and> tier info = t))))"
proof -
  from get_healthy_models_total[OF assms] obtain healthy where
    h: "get_healthy_models reg hs tier_filter = Inr healthy"
    by blast
  from get_healthy_models_set[OF h] obtain selected where
    sel: "healthy_loop reg tier_filter hs = Inr selected" and eq: "set healthy = set selected"
    by blast
  from healthy_loop_mem[OF sel] eq h show ?thesis
    by simp
qed

theorem get_healthy_models_membership_witness:
  "\<exists>healthy. get_healthy_models AI_MODELS unhealthy_once (Some 3) = Inr healthy \<and>
     (\<forall>m. m \<in> set healthy \<longleftrightarrow>
        (\<exists>st. (m, st) \<in> set unhealthy_once \<and> is_healthy st \<noteq> Some False \<and>
           consecutive_failures st < 3 \<and>
           (\<exists>info. map_of AI_MODELS m = Some info \<and> tier info = 3)))"
proof -
  have "fst ` set unhealthy_once \<subseteq> fst ` set AI_MODELS"
    by (simp add: unhealthy_once_def ModelHealthTracker_init_def AI_MODELS_def)
  from get_healthy_models_membership[OF this, of "Some 3"] show ?thesis
    by simp
qed

text \<open>
  Claim C4 as stated fails: after a single failure \<^verbatim>\<open>mistral-nemo\<close> is unhealthy with one
  consecutive failure, no tier filter is given, and the list leaves it out.
\<close>

theorem unhealthy_once_not_listed:
  "mark_failure (ModelHealthTracker_init AI_MODELS) ''mistral-nemo'' ''timeout'' ''t1'' =
     Inr unhealthy_once \<and>
   map_of unhealthy_once ''mistral-nemo'' =
     Some (initial_status\<lparr>is_healthy := Some False, last_failure := Some ''t1'',
             consecutive_failures := 1, total_calls := 1, total_failures := 1\<rparr>) \<and>
   get_healthy_models AI_MODELS unhealthy_once None =
     Inr [''gemini-2.0-flash'', ''llama-3.3-70b'', ''qwen-2.5-72b'', ''gemini-direct'',
          ''llama-3.1-8b'', ''hermes-3-405b'']"
proof (intro conjI)
  show "mark_failure (ModelHealthTracker_init AI_MODELS) ''mistral-nemo'' ''timeout'' ''t1'' =
     Inr unhealthy_once"
    by (simp add: mark_failure_def getitem_def unhealthy_once_def ModelHealthTracker_init_def
        AI_MODELS_def initial_status_def)
  show "map_of unhealthy_once ''mistral-nemo'' =
     Some (initial_status\<lparr>is_healthy := Some False, last_failure := Some ''t1'',
             consecutive_failures := 1, total_calls := 1, total_failures := 1\<rparr>)"
    by (simp add: unhealthy_once_def update_conv')
  show "get_healthy_models AI_MODELS unhealthy_once None =
     Inr [''gemini-2.0-flash'', ''llama-3.3-70b'', ''qwen-2.5-72b'', ''gemini-direct'',
          ''llama-3.1-8b'', ''hermes-3-405b'']"
    by code_simp
qed

text \<open>
  Claim C3. The list is sorted with \<^verbatim>\<open>reverse=True\<close> on the key (success rate, minus
  tier, average response time), so among backends equal in success rate and tier the
  one with the larger average response time comes first. Here \<^verbatim>\<open>llama-3.3-70b\<close>
  answered once in 1 second and \<^verbatim>\<open>qwen-2.5-72b\<close> once in 3 seconds; both are tier 1
  with success rate 1, and the slower \<^verbatim>\<open>qwen-2.5-72b\<close> is listed first.
\<close>

theorem get_healthy_models_slower_first:
  "run_calls (ModelHealthTracker_init AI_MODELS)
       [MarkSuccess ''llama-3.3-70b'' 1 ''t1'', MarkSuccess ''qwen-2.5-72b'' 3 ''t2''] =
     Inr two_successes \<and>
   health_key AI_MODELS two_successes ''llama-3.3-70b'' = Inr (1, - 1, 1) \<and>
   health_key AI_MODELS two_successes ''qwen-2.5-72b'' = Inr (1, - 1, 3) \<and>
   get_healthy_models AI_MODELS two_successes None =
     Inr [''qwen-2.5-72b'', ''llama-3.3-70b'', ''gemini-2.0-flash'', ''gemini-direct'',
          ''llama-3.1-8b'', ''hermes-3-405b'', ''mistral-nemo'']"
proof (intro conjI)
  show "run_calls (ModelHealthTracker_init AI_MODELS)
       [MarkSuccess ''llama-3.3-70b'' 1 ''t1'', MarkSuccess ''qwen-2.5-72b'' 3 ''t2''] =
     Inr two_successes"
    by (simp add: mark_success_def getitem_def two_successes_def ModelHealthTracker_init_def
        AI_MODELS_def initial_status_def)
  show "health_key AI_MODELS two_successes ''llama-3.3-70b'' = Inr (1, - 1, 1)"
    by code_simp
  show "health_key AI_MODELS two_successes ''qwen-2.5-72b'' = Inr (1, - 1, 3)"
    by code_simp
  show "get_healthy_models AI_MODELS two_successes None =
     Inr [''qwen-2.5-72b'', ''llama-3.3-70b'', ''gemini-2.0-flash'', ''gemini-direct'',
          ''llama-3.1-8b'', ''hermes-3-405b'', ''mistral-nemo'']"
    by code_simp
qed

section \<open>Properties of \<^verbatim>\<open>_get_suitable_models\<close>\<close>

lemma scored_loop_eq:
  "fst ` set items \<subseteq> fst ` set hs \<Longrightarrow>
   scored_loop hs task_type items =
     Inr (concat (map (\<lambda>(model_name, info).
                    case map_of hs model_name of
                      None \<Rightarrow> []
                    | Some st \<Rightarrow>
                        if is_healthy st = Some False \<and> consecutive_failures st \<ge> 2 then []
                        else [(model_name, suitability_score task_type info st)])
                 items))"
proof (induction items)
  case Nil
  then show ?case by simp
next
  case (Cons a items)
  obtain model_name info where a: "a = (model_name, info)"
    by (cases a)
  from Cons.prems a obtain st where st: "map_of hs model_name = Some st"
    by (cases "map_of hs model_name") (auto simp: map_of_eq_None_iff)
  from Cons have "scored_loop hs task_type items =
     Inr (concat (map (\<lambda>(model_name, info).
                    case map_of hs model_name of
                      None \<Rightarrow> []
                    | Some st \<Rightarrow>
                        if is_healthy st = Some False \<and> consecutive_failures st \<ge> 2 then []
                        else [(model_name, suitability_score task_type info st)])
                 items))"
    by simp
  with a st show ?case
    by (simp add: getitem_def)
qed



text \<open>
  Claim C5. When every registered model has a record, \<^verbatim>\<open>_get_suitable_models\<close> returns
  a list, and no backend whose record is unhealthy with at least 2 consecutive
  failures is in it, for every tracker state and task type.
\<close>

theorem unhealthy_never_ranked:
  assumes "fst ` set reg \<subseteq> fst ` set hs"
  shows "\<exists>ms. get_suitable_models reg hs task_type = Inr ms \<and>
           (\<forall>m st. map_of hs m = Some st \<and> is_healthy st = Some False \<and>
                    consecutive_failures st \<ge> 2 \<longrightarrow> m \<notin> set ms)"
proof -
  let ?cands = "concat (map (\<lambda>(model_name, info).
                    case map_of hs model_name of
                      None \<Rightarrow> []
                    | Some st \<Rightarrow>
                        if is_healthy st = Some False \<and> consecutive_failures st \<ge> 2 then []
                        else [(model_name, suitability_score task_type info st)])
                 reg)"
  have run: "get_suitable_models reg hs task_type = Inr (map fst (sort_reverse snd ?cands))"
    by (simp add: get_suitable_models_def scored_loop_eq[OF assms])
  have "m \<notin> fst ` set ?cands"
    if "map_of hs m = Some st" "is_healthy st = Some False" "consecutive_failures st \<ge> 2"
    for m st
    using that by (auto split: option.splits if_splits)
  then have "\<forall>m st. map_of hs m = Some st \<and> is_healthy st = Some False \<and>
                    consecutive_failures st \<ge> 2 \<longrightarrow> m \<notin> set (map fst (sort_reverse snd ?cands))"
    by (simp add: set_sort_reverse)
  with run show ?thesis
    by blast
qed

theorem unhealthy_never_ranked_witness:
  "\<exists>ms. get_suitable_models AI_MODELS unhealthy_twice ''quick_tasks'' = Inr ms \<and>
     ''mistral-nemo'' \<notin> set ms"
proof -
  have keys: "fst ` set AI_MODELS \<subseteq> fst ` set unhealthy_twice"
    by (simp add: unhealthy_twice_def ModelHealthTracker_init_def AI_MODELS_def)
  have st: "map_of unhealthy_twice ''mistral-nemo'' =
      Some (initial_status\<lparr>is_healthy := Some False, last_failure := Some ''t2'',
          consecutive_failures := 2, total_calls := 2, total_failures := 2\<rparr>)"
    by (simp add: unhealthy_twice_def update_conv')
  from unhealthy_never_ranked[OF keys, of "''quick_tasks''"] st show ?thesis
    by auto
qed



section \<open>Properties of the retry handler\<close>

lemma log_failure_count [simp]:
  "failure_count (data (log_failure ft etype dets count stamp now ok)) = failure_count (data ft)"
  by (simp add: log_failure_def save_data_def Let_def)

lemma calculate_retry_delay_pos:
  "1 \<le> a \<Longrightarrow> calculate_retry_delay a = min (2 ^ nat (a - 1)) 32"
  by (simp add: calculate_retry_delay_def RETRY_BASE_DELAY_def RETRY_MAX_DELAY_def Let_def power_int_def)

lemma calculate_retry_delay_mono:
  assumes "a \<le> b"
  shows "calculate_retry_delay a \<le> calculate_retry_delay b"
proof -
  from assms have "(2::rat) powi (a - 1) \<le> 2 powi (b - 1)"
    by (intro power_int_increasing) simp_all
  then show ?thesis
    by (auto simp: calculate_retry_delay_def RETRY_BASE_DELAY_def Let_def min_def)
qed

lemma calculate_retry_delay_cap: "calculate_retry_delay a \<le> 32"
  by (simp add: calculate_retry_delay_def RETRY_MAX_DELAY_def Let_def)

lemma retry_loop_fail_step:
  assumes "fails (func w a)" and "a < n"
  shows "\<exists>s1. retry_loop w n (a # rest) s = retry_loop w n rest s1 \<and>
           filter is_called (events s1) = filter is_called (events s) @ [Called a] \<and>
           filter is_slept (events s1) =
             filter is_slept (events s) @ [Slept (calculate_retry_delay a + jitter w a)] \<and>
           failure_count (data (ftracker s1)) = failure_count (data (ftracker s))"
  using assms
  by (cases "func w a") (auto simp: fails_def Let_def split: option.splits)


lemma retry_loop_success:
  assumes "func w a = Returned (Some v)"
  shows "\<exists>s1. retry_loop w n (a # rest) s = (Some v, s1) \<and>
           filter is_called (events s1) = filter is_called (events s) @ [Called a] \<and>
           filter is_slept (events s1) = filter is_slept (events s) \<and>
           ftracker s1 = ftracker s"
  using assms by (simp add: Let_def)


lemma retry_loop_fail_then_succeed:
  assumes "\<forall>i. a \<le> i \<and> i \<le> k \<longrightarrow> fails (func w i)" and "func w (k + 1) = Returned (Some v)"
    and "a \<le> k + 1" and "k < n"
  shows "\<exists>s'. retry_loop w n [a..n] s = (Some v, s') \<and>
           filter is_called (events s') = filter is_called (events s) @ map Called [a..k + 1] \<and>
           filter is_slept (events s') =
             filter is_slept (events s) @
               map (\<lambda>i. Slept (calculate_retry_delay i + jitter w i)) [a..k] \<and>
           failure_count (data (ftracker s')) = failure_count (data (ftracker s))"
  using assms
proof (induction "nat (k + 1 - a)" arbitrary: a s)
  case 0
  then have ak: "a = k + 1" by simp
  with 0 have up: "[a..n] = a # [a + 1..n]" "[a..k + 1] = [a]" "[a..k] = []"
    by (simp_all add: upto_rec1)
  from 0 ak have "func w a = Returned (Some v)" by simp
  from retry_loop_success[OF this, of n "[a + 1..n]" s] up show ?case
    by auto
next
  case (Suc d)
  then have le: "a \<le> k" by simp
  with Suc.prems have lt: "a < n" by simp
  from le lt have up: "[a..n] = a # [a + 1..n]" "[a..k + 1] = a # [a + 1..k + 1]"
      "[a..k] = a # [a + 1..k]"
    by (simp_all add: upto_rec1)
  from Suc.prems le have "fails (func w a)" by simp
  from retry_loop_fail_step[OF this lt, of "[a + 1..n]" s] obtain s1 where
    step: "retry_loop w n (a # [a + 1..n]) s = retry_loop w n [a + 1..n] s1"
    and c1: "filter is_called (events s1) = filter is_called (events s) @ [Called a]"
    and sl1: "filter is_slept (events s1) =
             filter is_slept (events s) @ [Slept (calculate_retry_delay a + jitter w a)]"
    and f1: "failure_count (data (ftracker s1)) = failure_count (data (ftracker s))"
    by blast
  have d: "d = nat (k + 1 - (a + 1))" using Suc.hyps(2) by simp
  have rest: "\<forall>i. a + 1 \<le> i \<and> i \<le> k \<longrightarrow> fails (func w i)"
    using Suc.prems(1) by simp
  from le have le': "a + 1 \<le> k + 1" by simp
  from Suc.hyps(1)[OF d rest Suc.prems(2) le' Suc.prems(4), of s1] obtain s' where
    r: "retry_loop w n [a + 1..n] s1 = (Some v, s')"
    and c2: "filter is_called (events s') =
               filter is_called (events s1) @ map Called [a + 1..k + 1]"
    and sl2: "filter is_slept (events s') =
             filter is_slept (events s1) @
               map (\<lambda>i. Slept (calculate_retry_delay i + jitter w i)) [a + 1..k]"
    and f2: "failure_count (data (ftracker s')) = failure_count (data (ftracker s1))"
    by auto
  from step r c1 c2 sl1 sl2 f1 f2 up show ?case
    by simp
qed



text \<open>
  Claim C8. If the wrapped function fails at attempts 1 to \<open>k\<close>, with \<open>k < 5\<close>, and
  returns a value at attempt \<open>k + 1\<close>, \<^verbatim>\<open>retry_with_backoff\<close> with the default
  \<open>MAX_RETRY_ATTEMPTS\<close> returns that value after \<open>k + 1\<close> calls and exactly \<open>k\<close> sleeps, the
  sleep after attempt \<open>i\<close> lasting \<open>calculate_retry_delay i\<close> plus the jitter. The base
  delay of attempt \<open>i \<ge> 1\<close> is \<open>min (1 * 2 ^ (i - 1)) 32\<close>; it is non-decreasing in \<open>i\<close>
  and never above 32. The failure counter is unchanged.
\<close>

theorem retry_succeeds_after_k_failures:
  assumes "0 \<le> k" and "k < MAX_RETRY_ATTEMPTS"
    and "\<forall>i. 1 \<le> i \<and> i \<le> k \<longrightarrow> fails (func w i)"
    and "func w (k + 1) = Returned (Some v)"
  shows "\<exists>s'. retry_with_backoff w MAX_RETRY_ATTEMPTS s = (Some v, s') \<and>
           filter is_called (events s') = filter is_called (events s) @ map Called [1..k + 1] \<and>
           filter is_slept (events s') =
             filter is_slept (events s) @
               map (\<lambda>i. Slept (calculate_retry_delay i + jitter w i)) [1..k] \<and>
           length [1..k] = nat k \<and>
           (\<forall>i. 1 \<le> i \<longrightarrow> calculate_retry_delay i = min (1 * 2 ^ nat (i - 1)) 32) \<and>
           (\<forall>i j. i \<le> j \<longrightarrow> calculate_retry_delay i \<le> calculate_retry_delay j) \<and>
           (\<forall>i. calculate_retry_delay i \<le> 32) \<and>
           failure_count (data (ftracker s')) = failure_count (data (ftracker s))"
proof -
  from assms(1) have "1 \<le> k + 1" by simp
  from retry_loop_fail_then_succeed[OF assms(3) assms(4) this assms(2), of s]
  obtain s' where "retry_with_backoff w MAX_RETRY_ATTEMPTS s = (Some v, s')"
    and "filter is_called (events s') = filter is_called (events s) @ map Called [1..k + 1]"
    and "filter is_slept (events s') =
             filter is_slept (events s) @
               map (\<lambda>i. Slept (calculate_retry_delay i + jitter w i)) [1..k]"
    and "failure_count (data (ftracker s')) = failure_count (data (ftracker s))"
    by (auto simp: retry_with_backoff_def)
  moreover from assms(1) have "length [1..k] = nat k"
    by simp
  moreover have "\<forall>i. 1 \<le> i \<longrightarrow> calculate_retry_delay i = min (1 * 2 ^ nat (i - 1)) 32"
    by (simp add: calculate_retry_delay_pos)
  moreover have "\<forall>i j. i \<le> j \<longrightarrow> calculate_retry_delay i \<le> calculate_retry_delay j"
    by (simp add: calculate_retry_delay_mono)
  moreover have "\<forall>i. calculate_retry_delay i \<le> 32"
    by (simp add: calculate_retry_delay_cap)
  ultimately show ?thesis
    by blast
qed

theorem retry_succeeds_after_k_failures_witness:
  "\<exists>s'. retry_with_backoff
           \<lparr>func = (\<lambda>i. if i \<le> 3 then Raised ''timeout'' else Returned (Some (42::nat))),
            jitter = (\<lambda>i. 1 / 10), now_iso = (\<lambda>i j. ''2025-01-01T00:00:00''),
            write_ok = (\<lambda>i j. True)\<rparr>
           MAX_RETRY_ATTEMPTS
           \<lparr>ftracker = \<lparr>data = \<lparr>failure_count = 7, failure_log = [], last_updated = ''never''\<rparr>,
                        saved = None\<rparr>,
            events = []\<rparr> = (Some 42, s') \<and>
         filter is_called (events s') = [Called 1, Called 2, Called 3, Called 4] \<and>
         filter is_slept (events s') = [Slept (11 / 10), Slept (21 / 10), Slept (41 / 10)] \<and>
         failure_count (data (ftracker s')) = 7"
proof -
  let ?w = "\<lparr>func = (\<lambda>i. if i \<le> 3 then Raised ''timeout'' else Returned (Some (42::nat))),
            jitter = (\<lambda>i. 1 / 10), now_iso = (\<lambda>i j. ''2025-01-01T00:00:00''),
            write_ok = (\<lambda>i j. True)\<rparr>"
  let ?s = "\<lparr>ftracker = \<lparr>data = \<lparr>failure_count = 7, failure_log = [], last_updated = ''never''\<rparr>,
                        saved = None\<rparr>,
            events = []\<rparr>"
  have h1: "(0::int) \<le> 3" and h2: "3 < MAX_RETRY_ATTEMPTS"
    by (simp_all add: MAX_RETRY_ATTEMPTS_def)
  have h3: "\<forall>i. 1 \<le> i \<and> i \<le> 3 \<longrightarrow> fails (func ?w i)"
    by (simp add: fails_def)
  have h4: "func ?w (3 + 1) = Returned (Some 42)"
    by simp
  have up: "[1..3 + 1] = [1, 2, 3, 4]" "[1..3] = [1, 2, 3::int]"
    by (simp_all add: upto_rec1)
  have d: "calculate_retry_delay 1 = 1" "calculate_retry_delay 2 = 2" "calculate_retry_delay 3 = 4"
    by (simp_all add: calculate_retry_delay_pos)
  from retry_succeeds_after_k_failures[OF h1 h2 h3 h4, where s = ?s] show ?thesis
    unfolding up by (auto simp: d)
qed

section \<open>Properties of \<^verbatim>\<open>generate_with_fallback\<close>\<close>

lemma tried_calls_append: "tried_calls (xs @ ys) = tried_calls xs @ tried_calls ys"
  by (induction xs rule: tried_calls.induct) simp_all

lemma update_keys:
  "map_of al k = Some v0 \<Longrightarrow> fst ` set (AList.update k v al) = fst ` set al"
proof -
  assume "map_of al k = Some v0"
  then have "k \<in> fst ` set al"
    by (metis map_of_eq_None_iff option.distinct(1))
  then show ?thesis
    by (auto simp: dom_update)
qed

lemma mark_success_keys:
  assumes "mark_success hs m rt now = Inr hs'"
  shows "fst ` set hs' = fst ` set hs"
proof -
  from assms obtain st st' where "map_of hs m = Some st" and "hs' = AList.update m st' hs"
    by (auto simp: mark_success_def getitem_def Let_def split: option.splits)
  then show ?thesis
    by (simp only: update_keys)
qed

lemma mark_failure_keys:
  assumes "mark_failure hs m msg now = Inr hs'"
  shows "fst ` set hs' = fst ` set hs"
proof -
  from assms obtain st st' where "map_of hs m = Some st" and "hs' = AList.update m st' hs"
    by (auto simp: mark_failure_def getitem_def split: option.splits)
  then show ?thesis
    by (simp only: update_keys)
qed

lemma mark_success_Inl:
  "mark_success hs m rt now = Inl e \<Longrightarrow> mark_failure hs m msg now' = Inl e"
  by (auto simp: mark_success_def mark_failure_def getitem_def Let_def split: option.splits)

lemma mark_success_total:
  "m \<in> fst ` set hs \<Longrightarrow> \<exists>hs'. mark_success hs m rt now = Inr hs'"
  by (cases "map_of hs m")
     (auto simp: mark_success_def getitem_def Let_def map_of_eq_None_iff)

lemma mark_failure_total:
  "m \<in> fst ` set hs \<Longrightarrow> \<exists>hs'. mark_failure hs m msg now = Inr hs'"
  by (cases "map_of hs m")
     (auto simp: mark_failure_def getitem_def map_of_eq_None_iff)

lemma attempt_loop_Cons_cases:
  assumes "attempt_loop w reg p mt tp n m (a # as) s = Inr (r, s')"
  shows "(\<exists>t. reply w reg p mt tp (m, a) = Returns (Some t) \<and> 50 < length t \<and>
              r = Some (t, m) \<and> tried_calls (trace s') = tried_calls (trace s) @ [(m, a)]) \<or>
         (\<not> accepted (reply w reg p mt tp (m, a)) \<and>
            (\<exists>s1. attempt_loop w reg p mt tp n m as s1 = Inr (r, s') \<and>
                  tried_calls (trace s1) = tried_calls (trace s) @ [(m, a)]))"
proof (cases "call_single_model w reg (m, a) m p mt tp")
  case (Raises msg)
  with assms show ?thesis
    by (auto simp: reply_def accepted_def Let_def tried_calls_append split: sum.splits)
next
  case (Returns result)
  show ?thesis
  proof (cases result)
    case None
    with Returns assms show ?thesis
      by (auto simp: reply_def accepted_def Let_def tried_calls_append)
  next
    case (Some t)
    show ?thesis
    proof (cases "50 < length t")
      case False
      with Some Returns assms show ?thesis
        by (auto simp: reply_def accepted_def Let_def tried_calls_append)
    next
      case True
      then have ne: "t \<noteq> []" by auto
      show ?thesis
      proof (cases "mark_success (tracker s) m (elapsed w (m, a)) (clock w (m, a))")
        case (Inr hs)
        with True ne Some Returns assms show ?thesis
          by (auto simp: reply_def Let_def tried_calls_append)
      next
        case (Inl e)
        obtain k where e: "e = KeyError k" by (cases e)
        from mark_success_Inl[OF Inl]
        have "mark_failure (tracker s) m ([CHR 0x27] @ k @ [CHR 0x27]) (clock w (m, a)) = Inl e" .
        with Inl e True ne Some Returns assms show ?thesis
          by (simp add: Let_def)
      qed
    qed
  qed
qed

lemma settled_Nil: "settled rp None []"
  by (simp add: settled_def)

lemma settled_append:
  assumes "settled rp None xs" and "settled rp r ys"
  shows "settled rp r (xs @ ys)"
proof (cases "ys = []")
  case True
  with assms show ?thesis
    by (cases r) (auto simp: settled_def)
next
  case False
  with assms show ?thesis
    by (cases r) (auto simp: settled_def butlast_append)
qed

lemma settled_reject: "\<not> accepted (rp c) \<Longrightarrow> settled rp None [c]"
  by (simp add: settled_def)

lemma settled_accept:
  "rp (m, a) = Returns (Some t) \<Longrightarrow> 50 < length t \<Longrightarrow> settled rp (Some (t, m)) [(m, a)]"
  by (simp add: settled_def)

lemma attempt_loop_settled:
  assumes "attempt_loop w reg p mt tp n m as s = Inr (r, s')"
  shows "\<exists>new rest. tried_calls (trace s') = tried_calls (trace s) @ new \<and>
           map (Pair m) as = new @ rest \<and> (r = None \<longrightarrow> rest = []) \<and>
           settled (reply w reg p mt tp) r new"
  using assms
proof (induction as arbitrary: s)
  case Nil
  then show ?case
    by (simp add: settled_Nil)
next
  case (Cons a as)
  from attempt_loop_Cons_cases[OF Cons.prems] show ?case
  proof (elim disjE exE conjE)
    fix t
    assume "reply w reg p mt tp (m, a) = Returns (Some t)" and "50 < length t"
      and "r = Some (t, m)"
      and "tried_calls (trace s') = tried_calls (trace s) @ [(m, a)]"
    then show ?thesis
      using settled_accept[of "reply w reg p mt tp" m a t]
      by (intro exI[of _ "[(m, a)]"] exI[of _ "map (Pair m) as"]) simp
  next
    fix s1
    assume rej: "\<not> accepted (reply w reg p mt tp (m, a))"
      and rest: "attempt_loop w reg p mt tp n m as s1 = Inr (r, s')"
      and tr: "tried_calls (trace s1) = tried_calls (trace s) @ [(m, a)]"
    from Cons.IH[OF rest] obtain new rest' where
      n1: "tried_calls (trace s') = tried_calls (trace s1) @ new"
      and n2: "map (Pair m) as = new @ rest'" and n3: "r = None \<longrightarrow> rest' = []"
      and n4: "settled (reply w reg p mt tp) r new"
      by blast
    from settled_append[OF settled_reject[of "reply w reg p mt tp" "(m, a)", OF rej] n4]
    have "settled (reply w reg p mt tp) r ([(m, a)] @ new)" .
    with n1 n2 n3 tr show ?thesis
      by (intro exI[of _ "(m, a) # new"] exI[of _ rest']) simp
  qed
qed

lemma model_loop_settled:
  assumes "model_loop w reg p mt tp n ms s = Inr (r, s')"
  shows "\<exists>new rest. tried_calls (trace s') = tried_calls (trace s) @ new \<and>
           concat (map (\<lambda>m. map (Pair m) [1..n]) ms) = new @ rest \<and>
           (r = None \<longrightarrow> rest = []) \<and>
           settled (reply w reg p mt tp) r new"
  using assms
proof (induction ms arbitrary: s)
  case Nil
  then show ?case
    by (simp add: settled_Nil)
next
  case (Cons m ms)
  from Cons.prems obtain r1 s1 where
    a: "attempt_loop w reg p mt tp n m [1..n] s = Inr (r1, s1)"
    by (auto split: sum.splits)
  from attempt_loop_settled[OF a] obtain new1 rest1 where
    a1: "tried_calls (trace s1) = tried_calls (trace s) @ new1"
    and a2: "map (Pair m) [1..n] = new1 @ rest1" and a3: "r1 = None \<longrightarrow> rest1 = []"
    and a4: "settled (reply w reg p mt tp) r1 new1"
    by blast
  show ?case
  proof (cases r1)
    case (Some found)
    with Cons.prems a have "r = r1" and "s' = s1"
      by (auto split: sum.splits)
    with a1 a2 a4 Some show ?thesis
      by (intro exI[of _ new1]
          exI[of _ "rest1 @ concat (map (\<lambda>m. map (Pair m) [1..n]) ms)"]) simp
  next
    case None
    with Cons.prems a have rest: "model_loop w reg p mt tp n ms s1 = Inr (r, s')"
      by (auto split: sum.splits)
    from Cons.IH[OF rest] obtain new2 rest2 where
      b1: "tried_calls (trace s') = tried_calls (trace s1) @ new2"
      and b2: "concat (map (\<lambda>m. map (Pair m) [1..n]) ms) = new2 @ rest2"
      and b3: "r = None \<longrightarrow> rest2 = []"
      and b4: "settled (reply w reg p mt tp) r new2"
      by blast
    from None a3 a2 have a2': "map (Pair m) [1..n] = new1"
      by simp
    from None a4 have "settled (reply w reg p mt tp) None new1"
      by simp
    from settled_append[OF this b4] a1 a2' b1 b2 b3 show ?thesis
      by (intro exI[of _ "new1 @ new2"] exI[of _ rest2]) simp
  qed
qed


lemma attempt_loop_total:
  assumes "m \<in> fst ` set (tracker s)"
  shows "\<exists>r s'. attempt_loop w reg p mt tp n m as s = Inr (r, s') \<and>
           fst ` set (tracker s') = fst ` set (tracker s)"
  using assms
proof (induction as arbitrary: s)
  case Nil
  then show ?case by simp
next
  case (Cons a as)
  let ?s1 = "s\<lparr>trace := trace s @ [Tried m a]\<rparr>"
  have cont: "\<exists>r s'. attempt_loop w reg p mt tp n m as
                 (if a < n then s2\<lparr>trace := trace s2 @ [Waited RETRY_DELAY]\<rparr> else s2) = Inr (r, s') \<and>
               fst ` set (tracker s') = fst ` set (tracker s)"
    if "fst ` set (tracker s2) = fst ` set (tracker s)" for s2
  proof -
    let ?s3 = "if a < n then s2\<lparr>trace := trace s2 @ [Waited RETRY_DELAY]\<rparr> else s2"
    from that Cons.prems have k: "m \<in> fst ` set (tracker ?s3)" and
      e: "fst ` set (tracker ?s3) = fst ` set (tracker s)"
      by auto
    from Cons.IH[OF k] e show ?thesis
      by auto
  qed
  have mf: "\<exists>hs'. mark_failure (tracker s) m msg (clock w (m, a)) = Inr hs'" for msg
    using Cons.prems by (rule mark_failure_total)
  show ?case
  proof (cases "call_single_model w reg (m, a) m p mt tp")
    case (Raises msg)
    from mf obtain hs' where f: "mark_failure (tracker s) m msg (clock w (m, a)) = Inr hs'"
      by blast
    from mark_failure_keys[OF f] have "fst ` set (tracker (?s1\<lparr>tracker := hs'\<rparr>)) = fst ` set (tracker s)"
      by simp
    from cont[OF this] Raises f show ?thesis
      by (simp add: Let_def)
  next
    case (Returns result)
    have keep: "fst ` set (tracker ?s1) = fst ` set (tracker s)"
      by simp
    show ?thesis
    proof (cases "\<exists>t. result = Some t \<and> 50 < length t")
      case False
      with cont[OF keep] Returns show ?thesis
        by (cases result) (auto simp: Let_def)
    next
      case True
      then obtain t where t: "result = Some t" "50 < length t"
        by blast
      then have ne: "t \<noteq> []"
        by auto
      from Cons.prems mark_success_total obtain hs' where
        ok: "mark_success (tracker s) m (elapsed w (m, a)) (clock w (m, a)) = Inr hs'"
        by blast
      from mark_success_keys[OF ok] Returns t ne ok show ?thesis
        by (simp add: Let_def)
    qed
  qed
qed

lemma model_loop_total:
  assumes "set ms \<subseteq> fst ` set reg" and "set ms \<subseteq> fst ` set (tracker s)"
  shows "\<exists>r s'. model_loop w reg p mt tp n ms s = Inr (r, s')"
  using assms
proof (induction ms arbitrary: s)
  case Nil
  then show ?case by simp
next
  case (Cons m ms)
  from Cons.prems obtain info where info: "map_of reg m = Some info"
    by (cases "map_of reg m") (auto simp: map_of_eq_None_iff)
  from Cons.prems have "m \<in> fst ` set (tracker s)"
    by simp
  from attempt_loop_total[OF this, of w reg p mt tp n "[1..n]"] obtain r1 s1 where
    a: "attempt_loop w reg p mt tp n m [1..n] s = Inr (r1, s1)"
    and k: "fst ` set (tracker s1) = fst ` set (tracker s)"
    by blast
  from Cons.prems k have "set ms \<subseteq> fst ` set reg" and "set ms \<subseteq> fst ` set (tracker s1)"
    by simp_all
  from Cons.IH[OF this] obtain r2 s2 where "model_loop w reg p mt tp n ms s1 = Inr (r2, s2)"
    by blast
  with a info show ?case
    by (cases r1) (auto simp: getitem_def)
qed

lemma get_suitable_models_subset:
  assumes "fst ` set reg \<subseteq> fst ` set hs"
  shows "\<exists>ms. get_suitable_models reg hs task_type = Inr ms \<and> set ms \<subseteq> fst ` set reg"
proof -
  let ?cands = "concat (map (\<lambda>(model_name, info).
                    case map_of hs model_name of
                      None \<Rightarrow> []
                    | Some st \<Rightarrow>
                        if is_healthy st = Some False \<and> consecutive_failures st \<ge> 2 then []
                        else [(model_name, suitability_score task_type info st)])
                 reg)"
  have run: "get_suitable_models reg hs task_type = Inr (map fst (sort_reverse snd ?cands))"
    by (simp add: get_suitable_models_def scored_loop_eq[OF assms])
  have "fst ` set ?cands \<subseteq> fst ` set reg"
    by (force split: option.splits if_splits)
  then have "set (map fst (sort_reverse snd ?cands)) \<subseteq> fst ` set reg"
    by (simp add: set_sort_reverse)
  with run show ?thesis
    by blast
qed

lemma generate_total:
  assumes "fst ` set reg \<subseteq> fst ` set hs"
  shows "\<exists>res s. generate_with_fallback w reg hs p task_type mt tp n = Inr (res, s)"
proof -
  from get_suitable_models_subset[OF assms] obtain ms where
    ms: "get_suitable_models reg hs task_type = Inr ms" and sub: "set ms \<subseteq> fst ` set reg"
    by blast
  from sub assms have "set ms \<subseteq> fst ` set (tracker \<lparr>tracker = hs, trace = []\<rparr>)"
    by auto
  from model_loop_total[OF sub this] obtain r s' where
    "model_loop w reg p mt tp n ms \<lparr>tracker = hs, trace = []\<rparr> = Inr (r, s')"
    by blast
  with ms show ?thesis
    by (cases r) (auto simp: generate_with_fallback_def)
qed

lemma generate_settled:
  assumes "generate_with_fallback w reg hs p task_type mt tp n = Inr (res, s)"
  shows "\<exists>ms r rest. get_suitable_models reg hs task_type = Inr ms \<and>
           res = (map_option fst r, map_option snd r) \<and>
           concat (map (\<lambda>m. map (Pair m) [1..n]) ms) = tried_calls (trace s) @ rest \<and>
           (r = None \<longrightarrow> rest = []) \<and>
           settled (reply w reg p mt tp) r (tried_calls (trace s))"
proof -
  from assms obtain ms where ms: "get_suitable_models reg hs task_type = Inr ms"
    by (auto simp: generate_with_fallback_def split: sum.splits)
  show ?thesis
  proof (cases "ms = []")
    case True
    with assms ms have "res = (None, None)" and "trace s = []"
      by (auto simp: generate_with_fallback_def)
    with ms True show ?thesis
      by (intro exI[of _ ms] exI[of _ None] exI[of _ "[]"]) (simp add: settled_Nil)
  next
    case False
    with assms ms obtain r where
      run: "model_loop w reg p mt tp n ms \<lparr>tracker = hs, trace = []\<rparr> = Inr (r, s)"
      and res: "res = (map_option fst r, map_option snd r)"
      by (auto simp: generate_with_fallback_def split: sum.splits option.splits prod.splits)
    from model_loop_settled[OF run] obtain new rest where
      "tried_calls (trace s) = new" and
      "concat (map (\<lambda>m. map (Pair m) [1..n]) ms) = new @ rest" and "r = None \<longrightarrow> rest = []"
      and "settled (reply w reg p mt tp) r new"
      by auto
    with ms res show ?thesis
      by blast
  qed
qed

text \<open>
  Claim C2, as amended. When every registered model has a record,
  \<^verbatim>\<open>generate_with_fallback\<close> returns without an exception; it calls the providers in
  rank order, attempts 1 to \<open>n\<close> for each candidate; no call before the last one got a
  text of more than 50 characters; if the result is a text \<open>t\<close> of model \<open>m\<close>, the last
  call was made to \<open>m\<close>, returned \<open>t\<close>, and \<open>t\<close> has more than 50 characters; and if the
  result is \<^verbatim>\<open>(None, None)\<close>, every candidate was tried \<open>n\<close> times and no call got a
  text of more than 50 characters. So a reply without an exception is accepted, and
  returned at once, exactly when its text has more than 50 characters.
\<close>

theorem accepted_iff_longer_than_50:
  assumes "fst ` set reg \<subseteq> fst ` set hs"
  shows "\<exists>suitable res s rest.
           get_suitable_models reg hs task_type = Inr suitable \<and>
           generate_with_fallback w reg hs prompt task_type max_tokens temperature n = Inr (res, s) \<and>
           concat (map (\<lambda>m. map (Pair m) [1..n]) suitable) = tried_calls (trace s) @ rest \<and>
           list_all (\<lambda>c. \<not> accepted (reply w reg prompt max_tokens temperature c))
             (butlast (tried_calls (trace s))) \<and>
           (case res of
              (Some t, Some m) \<Rightarrow>
                tried_calls (trace s) \<noteq> [] \<and> fst (last (tried_calls (trace s))) = m \<and>
                reply w reg prompt max_tokens temperature (last (tried_calls (trace s))) =
                  Returns (Some t) \<and>
                50 < length t
            | (None, None) \<Rightarrow>
                rest = [] \<and>
                list_all (\<lambda>c. \<not> accepted (reply w reg prompt max_tokens temperature c))
                  (tried_calls (trace s))
            | _ \<Rightarrow> False)"
proof -
  from generate_total[OF assms] obtain res s where
    gen: "generate_with_fallback w reg hs prompt task_type max_tokens temperature n = Inr (res, s)"
    by blast
  from generate_settled[OF gen] obtain ms r rest where
    ms: "get_suitable_models reg hs task_type = Inr ms"
    and res: "res = (map_option fst r, map_option snd r)"
    and all: "concat (map (\<lambda>m. map (Pair m) [1..n]) ms) = tried_calls (trace s) @ rest"
    and rest: "r = None \<longrightarrow> rest = []"
    and st: "settled (reply w reg prompt max_tokens temperature) r (tried_calls (trace s))"
    by blast
  from st res rest have
    "list_all (\<lambda>c. \<not> accepted (reply w reg prompt max_tokens temperature c))
             (butlast (tried_calls (trace s))) \<and>
           (case res of
              (Some t, Some m) \<Rightarrow>
                tried_calls (trace s) \<noteq> [] \<and> fst (last (tried_calls (trace s))) = m \<and>
                reply w reg prompt max_tokens temperature (last (tried_calls (trace s))) =
                  Returns (Some t) \<and>
                50 < length t
            | (None, None) \<Rightarrow>
                rest = [] \<and>
                list_all (\<lambda>c. \<not> accepted (reply w reg prompt max_tokens temperature c))
                  (tried_calls (trace s))
            | _ \<Rightarrow> False)"
    by (cases r) (auto simp: settled_def)
  with ms gen all show ?thesis
    by blast
qed

theorem accepted_iff_longer_than_50_witness:
  "\<exists>suitable res s rest.
     get_suitable_models AI_MODELS (ModelHealthTracker_init AI_MODELS) ''creative_writing'' =
       Inr suitable \<and>
     generate_with_fallback short_openrouter AI_MODELS (ModelHealthTracker_init AI_MODELS)
       ''Write a post'' ''creative_writing'' 600 (4 / 5) 2 = Inr (res, s) \<and>
     concat (map (\<lambda>m. map (Pair m) [1..2]) suitable) = tried_calls (trace s) @ rest \<and>
     list_all (\<lambda>c. \<not> accepted (reply short_openrouter AI_MODELS ''Write a post'' 600 (4 / 5) c))
       (butlast (tried_calls (trace s))) \<and>
     (case res of
        (Some t, Some m) \<Rightarrow>
          tried_calls (trace s) \<noteq> [] \<and> fst (last (tried_calls (trace s))) = m \<and>
          reply short_openrouter AI_MODELS ''Write a post'' 600 (4 / 5)
            (last (tried_calls (trace s))) = Returns (Some t) \<and>
          50 < length t
      | (None, None) \<Rightarrow>
          rest = [] \<and>
          list_all (\<lambda>c. \<not> accepted (reply short_openrouter AI_MODELS ''Write a post'' 600 (4 / 5) c))
            (tried_calls (trace s))
      | _ \<Rightarrow> False)"
proof -
  have "fst ` set AI_MODELS \<subseteq> fst ` set (ModelHealthTracker_init AI_MODELS)"
    using dom_init[of AI_MODELS] by (simp add: dom_map_of_conv_image_fst)
  from accepted_iff_longer_than_50[OF this] show ?thesis .
qed

lemma rank_fresh_creative:
  "get_suitable_models AI_MODELS (ModelHealthTracker_init AI_MODELS) ''creative_writing'' =
   Inr [''gemini-2.0-flash'', ''gemini-direct'', ''hermes-3-405b'', ''llama-3.3-70b'',
        ''qwen-2.5-72b'', ''llama-3.1-8b'', ''mistral-nemo'']"
  by code_simp


lemma fifty_attempts:
  "m \<in> fst ` set AI_MODELS \<Longrightarrow>
   attempt_loop fifty_everywhere AI_MODELS p mt tp 2 m [1..2] s =
     Inr (None, s\<lparr>trace := trace s @ [Tried m 1, Waited 2, Tried m 2]\<rparr>)"
  by (auto simp: upto_rec1 fifty_everywhere_def call_single_model_def call_openrouter_def
      call_gemini_direct_def getitem_def AI_MODELS_def text50_def RETRY_DELAY_def Let_def)

text \<open>
  Claim C2 as stated fails at length 50: when every provider returns a text of
  exactly 50 characters, no reply is accepted and the result is \<^verbatim>\<open>(None, None)\<close>.
\<close>

theorem fifty_characters_rejected:
  "length text50 = 50 \<and>
   map_sum id fst
     (generate_with_fallback fifty_everywhere AI_MODELS (ModelHealthTracker_init AI_MODELS)
        ''Write a post'' ''creative_writing'' 600 (4 / 5) 2) = Inr (None, None)"
proof
  show "length text50 = 50"
    by (simp add: text50_def)
  have m: "''gemini-2.0-flash'' \<in> fst ` set AI_MODELS" "''gemini-direct'' \<in> fst ` set AI_MODELS"
    "''hermes-3-405b'' \<in> fst ` set AI_MODELS" "''llama-3.3-70b'' \<in> fst ` set AI_MODELS"
    "''qwen-2.5-72b'' \<in> fst ` set AI_MODELS" "''llama-3.1-8b'' \<in> fst ` set AI_MODELS"
    "''mistral-nemo'' \<in> fst ` set AI_MODELS"
    by (simp_all add: AI_MODELS_def)
  have g: "getitem AI_MODELS ''gemini-2.0-flash'' \<noteq> Inl e" "getitem AI_MODELS ''gemini-direct'' \<noteq> Inl e"
    "getitem AI_MODELS ''hermes-3-405b'' \<noteq> Inl e" "getitem AI_MODELS ''llama-3.3-70b'' \<noteq> Inl e"
    "getitem AI_MODELS ''qwen-2.5-72b'' \<noteq> Inl e" "getitem AI_MODELS ''llama-3.1-8b'' \<noteq> Inl e"
    "getitem AI_MODELS ''mistral-nemo'' \<noteq> Inl e" for e
    by (simp_all add: getitem_def AI_MODELS_def)
  show "map_sum id fst
     (generate_with_fallback fifty_everywhere AI_MODELS (ModelHealthTracker_init AI_MODELS)
        ''Write a post'' ''creative_writing'' 600 (4 / 5) 2) = Inr (None, None)"
    using g by (simp add: generate_with_fallback_def rank_fresh_creative fifty_attempts m
        split: sum.splits)
qed

text \<open>
  Claim C1. A reply that is too short is not recorded in the tracker. With a fresh
  tracker, OpenRouter answering every call with a short text and the direct Gemini
  API answering well, the run calls \<^verbatim>\<open>gemini-2.0-flash\<close> twice and then
  \<^verbatim>\<open>gemini-direct\<close> once; afterwards the record of \<^verbatim>\<open>gemini-2.0-flash\<close> is still the
  initial one, with \<open>total_calls = 0\<close>, and only the success of \<^verbatim>\<open>gemini-direct\<close> is
  recorded.
\<close>

theorem short_replies_not_recorded:
  "generate_with_fallback short_openrouter AI_MODELS (ModelHealthTracker_init AI_MODELS)
      ''Write a post'' ''creative_writing'' 600 (4 / 5) 2 =
     Inr ((Some long_text, Some ''gemini-direct''),
          \<lparr>tracker = after_short_replies,
           trace = [Tried ''gemini-2.0-flash'' 1, Waited 2, Tried ''gemini-2.0-flash'' 2,
                    Tried ''gemini-direct'' 1]\<rparr>) \<and>
   map_of after_short_replies ''gemini-2.0-flash'' = Some initial_status \<and>
   total_calls initial_status = 0"
proof (intro conjI)
  let ?s0 = "\<lparr>tracker = ModelHealthTracker_init AI_MODELS, trace = []\<rparr>"
  let ?s1 = "\<lparr>tracker = ModelHealthTracker_init AI_MODELS,
             trace = [Tried ''gemini-2.0-flash'' 1, Waited 2, Tried ''gemini-2.0-flash'' 2]\<rparr>"
  have first: "attempt_loop short_openrouter AI_MODELS ''Write a post'' 600 (4 / 5) 2
      ''gemini-2.0-flash'' [1..2] ?s0 = Inr (None, ?s1)"
    by (simp add: upto_rec1 short_openrouter_def call_single_model_def call_openrouter_def
        getitem_def AI_MODELS_def RETRY_DELAY_def Let_def)
  have mark: "mark_success (ModelHealthTracker_init AI_MODELS) ''gemini-direct'' 1
      ''2025-01-01T00:00:00'' = Inr after_short_replies"
    by (simp add: mark_success_def getitem_def after_short_replies_def
        ModelHealthTracker_init_def AI_MODELS_def initial_status_def)
  have call: "call_single_model short_openrouter AI_MODELS (''gemini-direct'', 1) ''gemini-direct''
      ''Write a post'' 600 (4 / 5) = Returns (Some long_text)"
    by (simp add: short_openrouter_def call_single_model_def call_gemini_direct_def
        getitem_def AI_MODELS_def)
  have env: "elapsed short_openrouter (''gemini-direct'', 1) = 1"
    "clock short_openrouter (''gemini-direct'', 1) = ''2025-01-01T00:00:00''"
    by (simp_all add: short_openrouter_def)
  have second: "attempt_loop short_openrouter AI_MODELS ''Write a post'' 600 (4 / 5) 2
      ''gemini-direct'' [1..2] ?s1 =
      Inr (Some (long_text, ''gemini-direct''),
           \<lparr>tracker = after_short_replies,
            trace = [Tried ''gemini-2.0-flash'' 1, Waited 2, Tried ''gemini-2.0-flash'' 2,
                     Tried ''gemini-direct'' 1]\<rparr>)"
    by (simp add: upto_rec1 Let_def call mark env long_text_def)
  have g: "getitem AI_MODELS ''gemini-2.0-flash'' \<noteq> Inl e"
    "getitem AI_MODELS ''gemini-direct'' \<noteq> Inl e" for e
    by (simp_all add: getitem_def AI_MODELS_def)
  show "generate_with_fallback short_openrouter AI_MODELS (ModelHealthTracker_init AI_MODELS)
      ''Write a post'' ''creative_writing'' 600 (4 / 5) 2 =
     Inr ((Some long_text, Some ''gemini-direct''),
          \<lparr>tracker = after_short_replies,
           trace = [Tried ''gemini-2.0-flash'' 1, Waited 2, Tried ''gemini-2.0-flash'' 2,
                    Tried ''gemini-direct'' 1]\<rparr>)"
    using g by (simp add: generate_with_fallback_def rank_fresh_creative first second
        split: sum.splits)
  show "map_of after_short_replies ''gemini-2.0-flash'' = Some initial_status"
    by (simp add: after_short_replies_def update_conv' map_of_init AI_MODELS_def)
  show "total_calls initial_status = 0"
    by (simp add: initial_status_def)
qed

end
